theory Spec2Isabelle
  imports Main
begin

section \<open>JavaScript values used by the sources\<close>

text \<open>
  An optional string argument or field (\<^verbatim>\<open>name?: string\<close>, \<^verbatim>\<open>string | null\<close>) is a
  \<^typ>\<open>string option\<close>. JavaScript's \<^verbatim>\<open>a || b\<close> on such values takes \<^verbatim>\<open>a\<close> when it is
  truthy, which for a string means present and not empty.
\<close>

definition truthy :: "string option \<Rightarrow> bool" where
  "truthy v = (case v of None \<Rightarrow> False | Some s \<Rightarrow> s \<noteq> [])"

definition or_else :: "string option \<Rightarrow> string option \<Rightarrow> string option" where
  "or_else a b = (if truthy a then a else b)"

section \<open>Tenant manager (config.ts, class TenantManager)\<close>

datatype PoolType = Dedicated | Serverless

record SqlPool =
  pool_name :: string
  pool_type :: PoolType
  connectionString :: string

datatype CredentialsType = Service_principal | Managed_identity | Default_credentials

record TenantCredentials =
  cred_type :: CredentialsType
  cred_tenantId :: "string option"
  cred_clientId :: "string option"
  cred_clientSecret :: "string option"

record TenantConfig =
  name :: string
  subscriptionId :: string
  resourceGroup :: string
  workspaceName :: string
  sqlPools :: "SqlPool list"
  credentials :: TenantCredentials
  region :: "string option"
  tags :: "(string \<times> string) list option"

text \<open>
  The credential objects that \<^verbatim>\<open>addTenant\<close> constructs. \<open>Undefined\<close> is the value stored
  for a service principal whose three identifiers are not all given: the variable
  \<^verbatim>\<open>credential\<close> is then never assigned, and \<^verbatim>\<open>credentials.set(name, undefined)\<close> runs.
\<close>

datatype Credential =
    ClientSecretCredential string string string
  | ManagedIdentityCredential "string option"
  | DefaultAzureCredential
  | Undefined

record TenantManager =
  tenants :: "string \<rightharpoonup> TenantConfig"
  credentials_map :: "string \<rightharpoonup> Credential"
  defaultTenant :: "string option"

definition createCredentialFor :: "TenantCredentials \<Rightarrow> Credential" where
  "createCredentialFor c =
     (case cred_type c of
        Service_principal \<Rightarrow>
          (if truthy (cred_tenantId c) \<and> truthy (cred_clientId c) \<and> truthy (cred_clientSecret c)
           then ClientSecretCredential (the (cred_tenantId c)) (the (cred_clientId c))
                  (the (cred_clientSecret c))
           else Undefined)
      | Managed_identity \<Rightarrow>
          (if truthy (cred_clientId c) then ManagedIdentityCredential (cred_clientId c)
           else ManagedIdentityCredential None)
      | Default_credentials \<Rightarrow> DefaultAzureCredential)"

definition addTenant :: "string \<Rightarrow> TenantConfig \<Rightarrow> TenantManager \<Rightarrow> TenantManager" where
  "addTenant n config tm =
     tm\<lparr>tenants := (tenants tm)(n \<mapsto> config),
        credentials_map := (credentials_map tm)(n \<mapsto> createCredentialFor (credentials config))\<rparr>"

text \<open>\<^verbatim>\<open>const tenantName = name || this.defaultTenant || 'default'\<close>\<close>

definition resolveTenantName :: "TenantManager \<Rightarrow> string option \<Rightarrow> string" where
  "resolveTenantName tm n =
     (case or_else (or_else n (defaultTenant tm)) (Some ''default'') of
        Some s \<Rightarrow> s | None \<Rightarrow> ''default'')"

definition getTenant :: "TenantManager \<Rightarrow> string option \<Rightarrow> TenantConfig option" where
  "getTenant tm n = tenants tm (resolveTenantName tm n)"

definition getCredential :: "TenantManager \<Rightarrow> string option \<Rightarrow> Credential" where
  "getCredential tm n =
     (case credentials_map tm (resolveTenantName tm n) of
        None \<Rightarrow> DefaultAzureCredential
      | Some Undefined \<Rightarrow> DefaultAzureCredential
      | Some c \<Rightarrow> c)"

text \<open>
  \<^verbatim>\<open>getConnectionString(tenantName?, poolType = 'serverless')\<close>: the pool type defaults
  when the argument is omitted; \<^verbatim>\<open>sqlPools.find(p => p.type === poolType)\<close> is
  \<^const>\<open>List.find\<close>, and \<^verbatim>\<open>pool?.connectionString\<close> maps over its optional result.
\<close>

definition getConnectionString ::
  "TenantManager \<Rightarrow> string option \<Rightarrow> PoolType option \<Rightarrow> string option" where
  "getConnectionString tm tenantName poolType =
     (let pt = (case poolType of None \<Rightarrow> Serverless | Some k \<Rightarrow> k) in
      case getTenant tm tenantName of
        None \<Rightarrow> None
      | Some tenant \<Rightarrow>
          map_option connectionString (List.find (\<lambda>p. pool_type p = pt) (sqlPools tenant)))"

datatype tm_error = TenantNotFound string

definition setDefaultTenant :: "string \<Rightarrow> TenantManager \<Rightarrow> tm_error + TenantManager" where
  "setDefaultTenant n tm =
     (if tenants tm n \<noteq> None then Inr (tm\<lparr>defaultTenant := Some n\<rparr>)
      else Inl (TenantNotFound n))"

definition removeTenant :: "string \<Rightarrow> TenantManager \<Rightarrow> TenantManager" where
  "removeTenant n tm =
     (let tm1 = tm\<lparr>tenants := (tenants tm)(n := None)\<rparr>;
          tm2 = tm1\<lparr>credentials_map := (credentials_map tm1)(n := None)\<rparr>
      in if defaultTenant tm2 = Some n then tm2\<lparr>defaultTenant := None\<rparr> else tm2)"

text \<open>
  The lookup as the specification words it: walk the pool list from the front and stop
  at the first pool of the requested kind.
\<close>

fun first_descriptor_of_kind :: "SqlPool list \<Rightarrow> PoolType \<Rightarrow> string option" where
  "first_descriptor_of_kind [] k = None"
| "first_descriptor_of_kind (p # ps) k =
     (if pool_type p = k then Some (connectionString p) else first_descriptor_of_kind ps k)"

section \<open>Resilient request executor (config.ts, retryOperation)\<close>

text \<open>
  What a \<^verbatim>\<open>catch\<close> clause can receive. \<open>SynapseApiError\<close> carries its message and its
  \<^verbatim>\<open>statusCode\<close>; \<open>AuthenticationError\<close> and \<open>ConfigurationError\<close> are the other two
  classes of the error handler. \<open>StatusError\<close> is an \<^verbatim>\<open>Error\<close> object of any other class
  that carries a status code (a \<^verbatim>\<open>statusCode\<close> property, as the errors of the Azure client
  libraries do), with its message and that code; \<open>PlainError\<close> is any other \<^verbatim>\<open>Error\<close>
  object with its message. \<open>NonError\<close> is a thrown value that is not an \<^verbatim>\<open>Error\<close> instance
  and is neither \<^verbatim>\<open>null\<close> nor \<^verbatim>\<open>undefined\<close>, with its \<^verbatim>\<open>message\<close> property if it has one;
  \<open>Nullish\<close> is a thrown \<^verbatim>\<open>null\<close> or \<^verbatim>\<open>undefined\<close>.
\<close>

datatype thrown =
    SynapseApiError string int
  | AuthenticationError string
  | ConfigurationError string
  | StatusError string int
  | PlainError string
  | NonError "string option"
  | Nullish

text \<open>The status code an error carries, whatever its class.\<close>

fun carried_status :: "thrown \<Rightarrow> int option" where
  "carried_status (SynapseApiError m c) = Some c"
| "carried_status (StatusError m c) = Some c"
| "carried_status e = None"

text \<open>
  The operation is a closure with effects: it is a function on the state it acts on, and
  returns what the awaited promise settles with (\<open>Inl\<close> a rejection). A run of
  \<^verbatim>\<open>retryOperation\<close> gives the settlement of its promise (\<^verbatim>\<open>throw lastError\<close> throws
  \<^verbatim>\<open>undefined\<close>, here \<open>None\<close>, when the loop body never ran), the final state, the number
  of times the operation was invoked and the delays passed to \<^verbatim>\<open>setTimeout\<close>, in order.
\<close>

record ('a, 's) retry_outcome =
  outcome :: "thrown option + 'a"
  op_state :: 's
  invocations :: nat
  sleeps :: "int list"

text \<open>\<^verbatim>\<open>error instanceof SynapseApiError && error.statusCode >= 400 && error.statusCode < 500\<close>\<close>

definition is_client_error :: "thrown \<Rightarrow> bool" where
  "is_client_error e = (case e of SynapseApiError m c \<Rightarrow> 400 \<le> c \<and> c < 500 | _ \<Rightarrow> False)"

text \<open>
  The \<^verbatim>\<open>for (let attempt = 0; attempt <= maxRetries; attempt++)\<close> loop, from the value of
  \<^verbatim>\<open>attempt\<close> on. The two \<^verbatim>\<open>break\<close>s leave the loop for \<^verbatim>\<open>throw lastError\<close>. The delay
  is \<^verbatim>\<open>baseDelay * Math.pow(2, attempt)\<close>, exact on integers below \<open>2^53\<close>.
\<close>

function retry_loop ::
  "('s \<Rightarrow> (thrown + 'a) \<times> 's) \<Rightarrow> int \<Rightarrow> int \<Rightarrow> int \<Rightarrow> thrown option \<Rightarrow> 's \<Rightarrow> nat \<Rightarrow> int list
     \<Rightarrow> ('a, 's) retry_outcome" where
  "retry_loop operation maxRetries baseDelay attempt lastError s calls ds =
     (if attempt \<le> maxRetries then
        (case operation s of
           (Inr v, s') \<Rightarrow>
             \<lparr>outcome = Inr v, op_state = s', invocations = calls + 1, sleeps = ds\<rparr>
         | (Inl e, s') \<Rightarrow>
             if attempt = maxRetries then
               \<lparr>outcome = Inl (Some e), op_state = s', invocations = calls + 1, sleeps = ds\<rparr>
             else if is_client_error e then
               \<lparr>outcome = Inl (Some e), op_state = s', invocations = calls + 1, sleeps = ds\<rparr>
             else
               retry_loop operation maxRetries baseDelay (attempt + 1) (Some e) s' (calls + 1)
                 (ds @ [baseDelay * 2 ^ nat attempt]))
      else \<lparr>outcome = Inl lastError, op_state = s, invocations = calls, sleeps = ds\<rparr>)"
  by pat_completeness auto
termination
  by (relation "measure (\<lambda>(operation, maxRetries, baseDelay, attempt, lastError, s, calls, ds).
        nat (maxRetries + 1 - attempt))") auto

declare retry_loop.simps [simp del]

definition retryOperation ::
  "('s \<Rightarrow> (thrown + 'a) \<times> 's) \<Rightarrow> int \<Rightarrow> int \<Rightarrow> 's \<Rightarrow> ('a, 's) retry_outcome" where
  "retryOperation operation maxRetries baseDelay s =
     retry_loop operation maxRetries baseDelay 0 None s 0 []"

text \<open>The defaults of the signature: \<^verbatim>\<open>maxRetries: number = 3, baseDelay: number = 1000\<close>.\<close>

definition default_maxRetries :: int where "default_maxRetries = 3"
definition default_baseDelay :: int where "default_baseDelay = 1000"

text \<open>
  The state before the \<open>i\<close>-th invocation (counted from 0) of an operation that is only
  ever invoked by the loop, and what that invocation settles with.
\<close>

fun state_before :: "('s \<Rightarrow> (thrown + 'a) \<times> 's) \<Rightarrow> 's \<Rightarrow> nat \<Rightarrow> 's" where
  "state_before operation s 0 = s"
| "state_before operation s (Suc i) = state_before operation (snd (operation s)) i"

definition nth_result :: "('s \<Rightarrow> (thrown + 'a) \<times> 's) \<Rightarrow> 's \<Rightarrow> nat \<Rightarrow> thrown + 'a" where
  "nth_result operation s i = fst (operation (state_before operation s i))"

text \<open>A failure that the loop does not classify as a client error.\<close>

definition transient_failure :: "thrown + 'a \<Rightarrow> bool" where
  "transient_failure r = (case r of Inl e \<Rightarrow> \<not> is_client_error e | Inr v \<Rightarrow> False)"

text \<open>The schedule \<open>baseDelay \<times> 2^i\<close> for the attempt indices \<open>a, a+1, ..., a+k-1\<close>.\<close>

definition backoff :: "int \<Rightarrow> nat \<Rightarrow> nat \<Rightarrow> int list" where
  "backoff baseDelay a k = map (\<lambda>i. baseDelay * 2 ^ (a + i)) [0..<k]"

definition retryOperation_default ::
  "('s \<Rightarrow> (thrown + 'a) \<times> 's) \<Rightarrow> 's \<Rightarrow> ('a, 's) retry_outcome" where
  "retryOperation_default operation s =
     retryOperation operation default_maxRetries default_baseDelay s"

section \<open>Token cache (azure-auth.service.ts, class AzureAuthService)\<close>

text \<open>
  \<^verbatim>\<open>AccessToken\<close> of the credential library: the token string and its expiry in
  milliseconds since the epoch. The service tests \<^verbatim>\<open>!token.expiresOnTimestamp\<close>, so the
  field may be missing (\<open>None\<close>), and a timestamp of 0 is falsy as well.
\<close>

record AccessToken =
  token :: string
  expiresOnTimestamp :: "int option"

text \<open>
  The service object: its cached token, and the credential it was constructed with. The
  credential is an object with effects of its own, so its state \<open>'c\<close> is threaded through;
  \<open>getToken_calls\<close> counts the calls of \<^verbatim>\<open>this.credential.getToken\<close>, and is the only field
  that is not in the source.
\<close>

record 'c AzureAuthService =
  cachedToken :: "AccessToken option"
  credential :: 'c
  getToken_calls :: nat

definition tokenExpirationBuffer :: int where
  "tokenExpirationBuffer = 5 * 60 * 1000"

text \<open>\<^verbatim>\<open>isTokenValid\<close>; \<open>now\<close> is what \<^verbatim>\<open>Date.now()\<close> returns.\<close>

definition isTokenValid :: "AccessToken \<Rightarrow> int \<Rightarrow> bool" where
  "isTokenValid t now =
     (case expiresOnTimestamp t of
        None \<Rightarrow> False
      | Some expirationTime \<Rightarrow>
          if expirationTime = 0 then False
          else expirationTime - now > tokenExpirationBuffer)"

text \<open>\<^verbatim>\<open>error.message\<close> for an \<^verbatim>\<open>error instanceof Error\<close>, and \<open>None\<close> for any other thrown value.\<close>

fun error_message :: "thrown \<Rightarrow> string option" where
  "error_message (SynapseApiError m c) = Some m"
| "error_message (AuthenticationError m) = Some m"
| "error_message (ConfigurationError m) = Some m"
| "error_message (StatusError m c) = Some m"
| "error_message (PlainError m) = Some m"
| "error_message (NonError v) = None"
| "error_message Nullish = None"

text \<open>The \<^verbatim>\<open>catch\<close> block of \<^verbatim>\<open>getAccessToken\<close>.\<close>

definition getAccessToken_catch :: "thrown \<Rightarrow> 'c AzureAuthService \<Rightarrow> (thrown + string) \<times> 'c AzureAuthService" where
  "getAccessToken_catch error svc =
     (let svc' = svc\<lparr>cachedToken := None\<rparr> in
      case error_message error of
        Some m \<Rightarrow> (Inl (AuthenticationError (''Failed to acquire access token: '' @ m)), svc')
      | None \<Rightarrow> (Inl (AuthenticationError ''Failed to acquire access token: Unknown error''), svc'))"

text \<open>
  \<^verbatim>\<open>getAccessToken\<close>. \<open>getToken\<close> is the credential's method: on the credential's state it
  gives what its promise settles with (a rejection, \<^verbatim>\<open>null\<close>, or a token) and the new state.
  A \<^verbatim>\<open>null\<close> response throws inside the \<^verbatim>\<open>try\<close> block, so the same \<^verbatim>\<open>catch\<close> handles it.
\<close>

definition getAccessToken ::
  "('c \<Rightarrow> (thrown + AccessToken option) \<times> 'c) \<Rightarrow> int \<Rightarrow> 'c AzureAuthService
     \<Rightarrow> (thrown + string) \<times> 'c AzureAuthService" where
  "getAccessToken getToken now svc =
     (if (case cachedToken svc of None \<Rightarrow> False | Some t \<Rightarrow> isTokenValid t now)
      then (Inr (token (the (cachedToken svc))), svc)
      else
        (let (tokenResponse, c') = getToken (credential svc);
             svc1 = svc\<lparr>credential := c', getToken_calls := getToken_calls svc + 1\<rparr>
         in case tokenResponse of
              Inl error \<Rightarrow> getAccessToken_catch error svc1
            | Inr None \<Rightarrow>
                getAccessToken_catch (AuthenticationError ''Failed to acquire access token'') svc1
            | Inr (Some tr) \<Rightarrow> (Inr (token tr), svc1\<lparr>cachedToken := Some tr\<rparr>)))"

definition clearCache :: "'c AzureAuthService \<Rightarrow> 'c AzureAuthService" where
  "clearCache svc = svc\<lparr>cachedToken := None\<rparr>"

definition refreshToken ::
  "('c \<Rightarrow> (thrown + AccessToken option) \<times> 'c) \<Rightarrow> int \<Rightarrow> 'c AzureAuthService
     \<Rightarrow> (thrown + string) \<times> 'c AzureAuthService" where
  "refreshToken getToken now svc = getAccessToken getToken now (svc\<lparr>cachedToken := None\<rparr>)"

definition getAuthorizationHeader ::
  "('c \<Rightarrow> (thrown + AccessToken option) \<times> 'c) \<Rightarrow> int \<Rightarrow> 'c AzureAuthService
     \<Rightarrow> (thrown + string) \<times> 'c AzureAuthService" where
  "getAuthorizationHeader getToken now svc =
     (case getAccessToken getToken now svc of
        (Inl e, svc') \<Rightarrow> (Inl e, svc')
      | (Inr t, svc') \<Rightarrow> (Inr (''Bearer '' @ t), svc'))"

text \<open>
  The cache test as the specification words it: a cached token exists and its expiry
  timestamp lies more than five minutes after \<open>now\<close>.
\<close>

definition cache_is_fresh :: "'c AzureAuthService \<Rightarrow> int \<Rightarrow> bool" where
  "cache_is_fresh svc now =
     (case cachedToken svc of
        None \<Rightarrow> False
      | Some t \<Rightarrow>
          (case expiresOnTimestamp t of
             None \<Rightarrow> False
           | Some e \<Rightarrow> e - now > 5 * 60 * 1000))"

section \<open>Connection pool and result cache (connection-pool.ts, class ConnectionPool)\<close>

subsection \<open>The result cache\<close>

text \<open>
  \<^verbatim>\<open>new NodeCache({ stdTTL, checkperiod })\<close> of the node-cache package, as far as the pool
  uses it: \<^verbatim>\<open>set\<close> stores a value with the time it expires at, \<open>now + stdTTL \<times> 1000\<close>
  milliseconds, or 0 (never) when \<open>stdTTL\<close> is 0; \<^verbatim>\<open>get\<close> gives the value of a key unless its
  time is not 0 and lies before \<open>now\<close>, in which case it deletes the key; \<^verbatim>\<open>flushAll\<close>
  empties the store. \<open>stdTTL\<close> is \<^verbatim>\<open>parseInt(process.env.CACHE_TTL || '300')\<close>, in seconds.
  A cached value is the list of rows of a result.
\<close>

record 'r NodeCache =
  stdTTL :: int
  entries :: "string \<rightharpoonup> ('r list \<times> int)"

definition cache_get :: "int \<Rightarrow> string \<Rightarrow> 'r NodeCache \<Rightarrow> 'r list option \<times> 'r NodeCache" where
  "cache_get now k c =
     (case entries c k of
        None \<Rightarrow> (None, c)
      | Some (v, t) \<Rightarrow>
          if t \<noteq> 0 \<and> t < now then (None, c\<lparr>entries := (entries c)(k := None)\<rparr>)
          else (Some v, c))"

definition cache_set :: "int \<Rightarrow> string \<Rightarrow> 'r list \<Rightarrow> 'r NodeCache \<Rightarrow> 'r NodeCache" where
  "cache_set now k v c =
     c\<lparr>entries := (entries c)(k \<mapsto> (v, if stdTTL c = 0 then 0 else now + stdTTL c * 1000))\<rparr>"

definition flushAll :: "'r NodeCache \<Rightarrow> 'r NodeCache" where
  "flushAll c = c\<lparr>entries := Map.empty\<rparr>"

subsection \<open>The pool and the objects it creates\<close>

text \<open>
  A promise is pending, fulfilled or rejected. Every call of \<^verbatim>\<open>createConnection\<close> constructs
  one \<^verbatim>\<open>Connection\<close> and one promise, which can only be fulfilled with that connection, so
  both are identified by the index of the call. Of a connection the model keeps the \<^verbatim>\<open>key\<close>
  its event handlers close over, the connection string its configuration was parsed from,
  the state of its promise, and whether its \<^verbatim>\<open>state\<close> is \<^verbatim>\<open>STATE.LOGGED_IN\<close>.
\<close>

datatype settlement = Pending | Fulfilled | Rejected thrown

record connection_object =
  conn_key :: string
  conn_string :: string
  creation :: settlement
  logged_in :: bool

record 'r ConnectionPool =
  connections :: "string \<rightharpoonup> nat"
  connectionPromises :: "string \<rightharpoonup> nat"
  cache :: "'r NodeCache"

text \<open>
  The pool in its runtime: the objects constructed so far, the activations of
  \<^verbatim>\<open>getConnection\<close> that are suspended at \<^verbatim>\<open>await connectionPromise\<close> (with their key and
  promise), and the statements handed to \<^verbatim>\<open>connection.execSql\<close>, in order. The last two
  fields are not fields of the source: the first is the runtime's, the second is a log.
\<close>

record 'r runtime =
  pool :: "'r ConnectionPool"
  objects :: "connection_object list"
  suspended :: "(string \<times> nat) list"
  requests :: "(nat \<times> string) list"

definition initial :: "int \<Rightarrow> 'r runtime" where
  "initial ttl =
     \<lparr>pool = \<lparr>connections = Map.empty, connectionPromises = Map.empty,
              cache = \<lparr>stdTTL = ttl, entries = Map.empty\<rparr>\<rparr>,
      objects = [], suspended = [], requests = []\<rparr>"

definition getConnectionKey :: "string \<Rightarrow> string \<Rightarrow> string \<Rightarrow> string" where
  "getConnectionKey workspace database poolType = workspace @ ''-'' @ database @ ''-'' @ poolType"

definition is_logged_in :: "'r runtime \<Rightarrow> nat \<Rightarrow> bool" where
  "is_logged_in rt c = (c < length (objects rt) \<and> logged_in (objects rt ! c))"

definition set_logged_in :: "nat \<Rightarrow> bool \<Rightarrow> 'r runtime \<Rightarrow> 'r runtime" where
  "set_logged_in c b rt =
     (if c < length (objects rt)
      then rt\<lparr>objects := (objects rt)[c := (objects rt ! c)\<lparr>logged_in := b\<rparr>]\<rparr>
      else rt)"

definition delete_connection :: "string \<Rightarrow> 'r runtime \<Rightarrow> 'r runtime" where
  "delete_connection key rt =
     rt\<lparr>pool := (pool rt)\<lparr>connections := (connections (pool rt))(key := None)\<rparr>\<rparr>"

definition delete_promise :: "string \<Rightarrow> 'r runtime \<Rightarrow> 'r runtime" where
  "delete_promise key rt =
     rt\<lparr>pool := (pool rt)\<lparr>connectionPromises := (connectionPromises (pool rt))(key := None)\<rparr>\<rparr>"

text \<open>
  \<^verbatim>\<open>createConnection\<close>: the executor of the new promise runs at once; it constructs the
  connection, registers the three handlers and calls \<^verbatim>\<open>connection.connect()\<close>. The result
  is the new promise, pending. Each call is one connect attempt; an attempt that the
  driver refuses before it reaches the network is an attempt whose promise is rejected.
\<close>

definition createConnection :: "string \<Rightarrow> string \<Rightarrow> 'r runtime \<Rightarrow> nat \<times> 'r runtime" where
  "createConnection connString key rt =
     (length (objects rt),
      rt\<lparr>objects := objects rt @
            [\<lparr>conn_key = key, conn_string = connString, creation = Pending,
              logged_in = False\<rparr>]\<rparr>)"

text \<open>
  \<^verbatim>\<open>getConnection\<close> up to its first suspension. It returns the pooled connection
  (\<open>Returned\<close>), or returns the promise already registered for the key (\<open>Adopted\<close>: the
  caller's promise then settles as that one does), or creates a connection, registers its
  promise and suspends on it (\<open>Awaiting\<close>).
\<close>

datatype gc_outcome = Returned nat | Adopted nat | Awaiting nat

definition getConnection_sync ::
  "string \<Rightarrow> string \<Rightarrow> string \<Rightarrow> string \<Rightarrow> 'r runtime \<Rightarrow> gc_outcome \<times> 'r runtime" where
  "getConnection_sync connString workspace database poolType rt =
     (let key = getConnectionKey workspace database poolType in
      if (case connections (pool rt) key of None \<Rightarrow> False | Some c \<Rightarrow> is_logged_in rt c)
      then (Returned (the (connections (pool rt) key)), rt)
      else
        (case connectionPromises (pool rt) key of
           Some existingPromise \<Rightarrow> (Adopted existingPromise, rt)
         | None \<Rightarrow>
             (let (p, rt1) = createConnection connString key rt;
                  rt2 = rt1\<lparr>pool := (pool rt1)
                          \<lparr>connectionPromises := (connectionPromises (pool rt1))(key \<mapsto> p)\<rparr>\<rparr>
              in (Awaiting p, rt2\<lparr>suspended := suspended rt2 @ [(key, p)]\<rparr>))))"

text \<open>
  What a promise of \<^verbatim>\<open>createConnection\<close> has settled with: nothing yet, its connection, or
  the error of the \<^verbatim>\<open>connect\<close> event. A caller that was given the promise gets this.
\<close>

definition settled_value :: "'r runtime \<Rightarrow> nat \<Rightarrow> (thrown + nat) option" where
  "settled_value rt p =
     (if p < length (objects rt) then
        (case creation (objects rt ! p) of
           Pending \<Rightarrow> None
         | Fulfilled \<Rightarrow> Some (Inr p)
         | Rejected e \<Rightarrow> Some (Inl e))
      else None)"

text \<open>
  \<^verbatim>\<open>getConnection\<close> from \<^verbatim>\<open>await connectionPromise\<close> on: the \<^verbatim>\<open>try\<close> branch stores the
  connection and deletes the promise, the \<^verbatim>\<open>catch\<close> branch deletes the promise and
  rethrows. The result is \<open>None\<close> while the promise is pending (the activation cannot run).
\<close>

definition getConnection_resume ::
  "string \<Rightarrow> nat \<Rightarrow> 'r runtime \<Rightarrow> (thrown + nat) option \<times> 'r runtime" where
  "getConnection_resume key p rt =
     (case settled_value rt p of
        None \<Rightarrow> (None, rt)
      | Some (Inr connection) \<Rightarrow>
          (let rt1 = rt\<lparr>pool := (pool rt)
                       \<lparr>connections := (connections (pool rt))(key \<mapsto> connection)\<rparr>\<rparr>;
               rt2 = delete_promise key rt1
           in (Some (Inr connection), rt2\<lparr>suspended := remove1 (key, p) (suspended rt2)\<rparr>))
      | Some (Inl error) \<Rightarrow>
          (let rt1 = delete_promise key rt
           in (Some (Inl error), rt1\<lparr>suspended := remove1 (key, p) (suspended rt1)\<rparr>)))"

text \<open>
  The handlers that \<^verbatim>\<open>createConnection\<close> registers. \<^verbatim>\<open>connect\<close> settles the promise (a
  promise settles once); the driver is logged in when it reports success. \<^verbatim>\<open>error\<close> and
  \<^verbatim>\<open>end\<close> delete the entry of the handler's key, whichever connection it holds.
\<close>

definition on_connect :: "nat \<Rightarrow> thrown option \<Rightarrow> 'r runtime \<Rightarrow> 'r runtime" where
  "on_connect c err rt =
     rt\<lparr>objects := (objects rt)
          [c := (objects rt ! c)
             \<lparr>creation := (case err of None \<Rightarrow> Fulfilled | Some e \<Rightarrow> Rejected e),
              logged_in := (err = None)\<rparr>]\<rparr>"

definition on_error :: "nat \<Rightarrow> 'r runtime \<Rightarrow> 'r runtime" where
  "on_error c rt = delete_connection (conn_key (objects rt ! c)) rt"

definition on_end :: "nat \<Rightarrow> 'r runtime \<Rightarrow> 'r runtime" where
  "on_end c rt = delete_connection (conn_key (objects rt ! c)) (set_logged_in c False rt)"

text \<open>
  \<^verbatim>\<open>closeConnection\<close>, and \<^verbatim>\<open>closeAll\<close> before and after its \<^verbatim>\<open>await Promise.all\<close>.
  \<^verbatim>\<open>closeAll\<close> closes the values of the map; a connection is only ever stored under the key
  it was created with, so these are the objects that the map holds under their own key.
\<close>

definition closeConnection :: "string \<Rightarrow> string \<Rightarrow> string \<Rightarrow> 'r runtime \<Rightarrow> 'r runtime" where
  "closeConnection workspace database poolType rt =
     (let key = getConnectionKey workspace database poolType in
      case connections (pool rt) key of
        None \<Rightarrow> rt
      | Some connection \<Rightarrow> delete_connection key (set_logged_in connection False rt))"

definition closeAll_start :: "'r runtime \<Rightarrow> 'r runtime" where
  "closeAll_start rt =
     rt\<lparr>objects := map (\<lambda>(i, ob). if connections (pool rt) (conn_key ob) = Some i
                                   then ob\<lparr>logged_in := False\<rparr> else ob)
                       (enumerate 0 (objects rt))\<rparr>"

definition closeAll_finish :: "'r runtime \<Rightarrow> 'r runtime" where
  "closeAll_finish rt =
     rt\<lparr>pool := (pool rt)\<lparr>connections := Map.empty, cache := flushAll (cache (pool rt))\<rparr>\<rparr>"

definition clearCache_pool :: "'r runtime \<Rightarrow> 'r runtime" where
  "clearCache_pool rt = rt\<lparr>pool := (pool rt)\<lparr>cache := flushAll (cache (pool rt))\<rparr>\<rparr>"

subsection \<open>Executing a statement\<close>

text \<open>
  The cache key is \<^verbatim>\<open>`${query}-${JSON.stringify(parameters || {})}`\<close>. \<open>stringify\<close> stands
  for \<^verbatim>\<open>JSON.stringify\<close> on a parameter object; it is a parameter of the model.
\<close>

definition cacheKey :: "('p \<Rightarrow> string) \<Rightarrow> string \<Rightarrow> 'p option \<Rightarrow> string" where
  "cacheKey stringify query parameters =
     query @ ''-'' @ (case parameters of None \<Rightarrow> ''{}'' | Some p \<Rightarrow> stringify p)"

text \<open>
  \<^verbatim>\<open>connection.execSql(request)\<close>: the statement is logged; a connection that is logged in
  leaves that state while the request runs.
\<close>

definition execSql :: "nat \<Rightarrow> string \<Rightarrow> 'r runtime \<Rightarrow> 'r runtime" where
  "execSql connection query rt =
     (set_logged_in connection False rt)\<lparr>requests := requests rt @ [(connection, query)]\<rparr>"

text \<open>
  \<^verbatim>\<open>executeQuery\<close> up to the submission: the rows from the cache, or the statement handed
  to the connection.
\<close>

datatype 'r eq_outcome = Cached "'r list" | Submitted

definition executeQuery_sync ::
  "('p \<Rightarrow> string) \<Rightarrow> int \<Rightarrow> nat \<Rightarrow> string \<Rightarrow> 'p option \<Rightarrow> 'r runtime
     \<Rightarrow> 'r eq_outcome \<times> 'r runtime" where
  "executeQuery_sync stringify now connection query parameters rt =
     (let (cachedResult, c) = cache_get now (cacheKey stringify query parameters) (cache (pool rt));
          rt1 = rt\<lparr>pool := (pool rt)\<lparr>cache := c\<rparr>\<rparr>
      in case cachedResult of
           Some rows \<Rightarrow> (Cached rows, rt1)
         | None \<Rightarrow> (Submitted, execSql connection query rt1))"

text \<open>
  The callback of the request, with the error of the execution or the rows that the
  \<^verbatim>\<open>row\<close> events delivered, in order of arrival: the promise of \<^verbatim>\<open>executeQuery\<close> rejects,
  or the rows are cached and the promise resolves with them.
\<close>

definition executeQuery_complete ::
  "('p \<Rightarrow> string) \<Rightarrow> int \<Rightarrow> string \<Rightarrow> 'p option \<Rightarrow> thrown + 'r list \<Rightarrow> 'r runtime
     \<Rightarrow> (thrown + 'r list) \<times> 'r runtime" where
  "executeQuery_complete stringify now query parameters response rt =
     (case response of
        Inl err \<Rightarrow> (Inl err, rt)
      | Inr results \<Rightarrow>
          (Inr results,
           rt\<lparr>pool := (pool rt)
                \<lparr>cache := cache_set now (cacheKey stringify query parameters) results
                            (cache (pool rt))\<rparr>\<rparr>))"

subsection \<open>The steps of the runtime\<close>

text \<open>
  Between two suspension points the code runs alone (one thread, run to completion), so
  a run of the pool is a sequence of steps: the calls of its methods up to their first
  \<^verbatim>\<open>await\<close>, the continuations, the events of the driver, and the driver changing the
  \<^verbatim>\<open>state\<close> of a connection (to and from \<^verbatim>\<open>LOGGED_IN\<close>, as when a request ends). A step
  that cannot happen in the state gives \<open>None\<close>: an event of a connection that does not
  exist, a second \<^verbatim>\<open>connect\<close> event, a continuation whose promise is pending or that is not
  suspended.
\<close>

datatype ('p, 'r) event =
    GetConnection string string string string
  | ConnectEvent nat "thrown option"
  | ResumeGetConnection string nat
  | ErrorEvent nat
  | EndEvent nat
  | StateChange nat bool
  | CloseConnection string string string
  | CloseAllStart
  | CloseAllFinish
  | ClearCache
  | ExecuteQuery int nat string "'p option"
  | ExecuteQueryDone int string "'p option" "thrown + 'r list"

fun step :: "('p \<Rightarrow> string) \<Rightarrow> ('p, 'r) event \<Rightarrow> 'r runtime \<Rightarrow> 'r runtime option" where
  "step sf (GetConnection cs ws db pt) rt = Some (snd (getConnection_sync cs ws db pt rt))"
| "step sf (ConnectEvent c err) rt =
     (if c < length (objects rt) \<and> creation (objects rt ! c) = Pending
      then Some (on_connect c err rt) else None)"
| "step sf (ResumeGetConnection key p) rt =
     (if (key, p) \<in> set (suspended rt) \<and> settled_value rt p \<noteq> None
      then Some (snd (getConnection_resume key p rt)) else None)"
| "step sf (ErrorEvent c) rt = (if c < length (objects rt) then Some (on_error c rt) else None)"
| "step sf (EndEvent c) rt = (if c < length (objects rt) then Some (on_end c rt) else None)"
| "step sf (StateChange c b) rt =
     (if c < length (objects rt) then Some (set_logged_in c b rt) else None)"
| "step sf (CloseConnection ws db pt) rt = Some (closeConnection ws db pt rt)"
| "step sf CloseAllStart rt = Some (closeAll_start rt)"
| "step sf CloseAllFinish rt = Some (closeAll_finish rt)"
| "step sf ClearCache rt = Some (clearCache_pool rt)"
| "step sf (ExecuteQuery now c query ps) rt =
     (if c < length (objects rt) then Some (snd (executeQuery_sync sf now c query ps rt))
      else None)"
| "step sf (ExecuteQueryDone now query ps response) rt =
     Some (snd (executeQuery_complete sf now query ps response rt))"

fun run :: "('p \<Rightarrow> string) \<Rightarrow> ('p, 'r) event list \<Rightarrow> 'r runtime \<Rightarrow> 'r runtime option" where
  "run sf [] rt = Some rt"
| "run sf (e # es) rt = (case step sf e rt of None \<Rightarrow> None | Some rt' \<Rightarrow> run sf es rt')"

inductive reachable :: "('p \<Rightarrow> string) \<Rightarrow> int \<Rightarrow> 'r runtime \<Rightarrow> bool"
  for sf :: "'p \<Rightarrow> string" and ttl :: int where
  reachable_initial: "reachable sf ttl (initial ttl)"
| reachable_step: "reachable sf ttl rt \<Longrightarrow> step sf e rt = Some rt' \<Longrightarrow> reachable sf ttl rt'"

text \<open>
  The notions the properties speak of: a pooled session in the ready state; the creations
  in flight for a key (the promises of the suspended activations that started one); the
  number of connect attempts made for a key, and of those that are still pending.
\<close>

definition ready_session :: "'r runtime \<Rightarrow> string \<Rightarrow> bool" where
  "ready_session rt key =
     (case connections (pool rt) key of None \<Rightarrow> False | Some c \<Rightarrow> is_logged_in rt c)"

definition in_flight :: "'r runtime \<Rightarrow> string \<Rightarrow> nat list" where
  "in_flight rt key = map snd (filter (\<lambda>kp. fst kp = key) (suspended rt))"

definition attempts_for :: "'r runtime \<Rightarrow> string \<Rightarrow> nat" where
  "attempts_for rt key = length (filter (\<lambda>ob. conn_key ob = key) (objects rt))"

definition pending_attempts :: "'r runtime \<Rightarrow> string \<Rightarrow> nat" where
  "pending_attempts rt key =
     length (filter (\<lambda>ob. conn_key ob = key \<and> creation ob = Pending) (objects rt))"

text \<open>
  What every reachable state satisfies: the suspended creations have distinct keys and
  are exactly the entries of \<^verbatim>\<open>connectionPromises\<close>; a suspended creation and a pooled
  connection are objects made for their key, the pooled one fulfilled; a pending attempt
  belongs to a suspended creation; and a pooled connection is older than a creation in
  flight for the same key.
\<close>

definition pool_inv :: "'r runtime \<Rightarrow> bool" where
  "pool_inv rt \<longleftrightarrow>
     distinct (map fst (suspended rt))
   \<and> (\<forall>k p. connectionPromises (pool rt) k = Some p \<longleftrightarrow> (k, p) \<in> set (suspended rt))
   \<and> (\<forall>k p. (k, p) \<in> set (suspended rt)
         \<longrightarrow> p < length (objects rt) \<and> conn_key (objects rt ! p) = k)
   \<and> (\<forall>k c. connections (pool rt) k = Some c
         \<longrightarrow> c < length (objects rt) \<and> conn_key (objects rt ! c) = k
             \<and> creation (objects rt ! c) = Fulfilled)
   \<and> (\<forall>p. p < length (objects rt) \<and> creation (objects rt ! p) = Pending
         \<longrightarrow> (conn_key (objects rt ! p), p) \<in> set (suspended rt))
   \<and> (\<forall>k c p. connections (pool rt) k = Some c \<and> connectionPromises (pool rt) k = Some p
         \<longrightarrow> c < p)"

text \<open>The state after \<^verbatim>\<open>getConnection\<close> started a creation for a key.\<close>

definition register_creation :: "string \<Rightarrow> string \<Rightarrow> 'r runtime \<Rightarrow> 'r runtime" where
  "register_creation connString key rt =
     rt\<lparr>objects := objects rt @
           [\<lparr>conn_key = key, conn_string = connString, creation = Pending, logged_in = False\<rparr>],
        pool := (pool rt)
           \<lparr>connectionPromises := (connectionPromises (pool rt))(key \<mapsto> length (objects rt))\<rparr>,
        suspended := suspended rt @ [(key, length (objects rt))]\<rparr>"

section \<open>SQL execution tool (synapse-operations.ts, executeSqlQuery)\<close>

record sql_params =
  p_workspace :: string
  p_database :: string
  p_query :: string
  p_poolType :: "PoolType option"
  p_tenant :: "string option"

text \<open>
  The result of the tool is one text item holding \<^verbatim>\<open>JSON.stringify\<close> of an object; the
  model keeps the object: \<^verbatim>\<open>{ success: true, rowCount, data, metadata }\<close> or
  \<^verbatim>\<open>{ success: false, error, hint, metadata }\<close>. The \<^verbatim>\<open>error\<close> field is the message of the
  caught value, absent when it has none.
\<close>

record metadata =
  md_workspace :: string
  md_database :: string
  md_poolType :: PoolType
  md_executionTime :: "string option"
  md_tenant :: string

datatype 'r tool_payload =
    SuccessPayload nat "'r list" metadata
  | FailurePayload "string option" string metadata

definition poolType_text :: "PoolType \<Rightarrow> string" where
  "poolType_text k = (case k of Dedicated \<Rightarrow> ''dedicated'' | Serverless \<Rightarrow> ''serverless'')"

text \<open>
  \<^verbatim>\<open>toLowerCase\<close> on the letters A to Z (other characters are left as they are), and
  \<^verbatim>\<open>String.prototype.includes\<close>.
\<close>

definition toLowerCase :: "string \<Rightarrow> string" where
  "toLowerCase s =
     map (\<lambda>c. let n = (of_char c :: nat) in if 65 \<le> n \<and> n \<le> 90 then char_of (n + 32) else c) s"

fun starts_with :: "string \<Rightarrow> string \<Rightarrow> bool" where
  "starts_with s [] = True"
| "starts_with [] (c # cs) = False"
| "starts_with (d # ds) (c # cs) = (d = c \<and> starts_with ds cs)"

fun js_includes :: "string \<Rightarrow> string \<Rightarrow> bool" where
  "js_includes [] sub = (sub = [])"
| "js_includes (c # cs) sub = (starts_with (c # cs) sub \<or> js_includes cs sub)"

text \<open>
  Reading \<^verbatim>\<open>error.message\<close> of a caught value: it throws a \<^verbatim>\<open>TypeError\<close> (\<open>None\<close>) when the
  value is \<^verbatim>\<open>null\<close> or \<^verbatim>\<open>undefined\<close>, and gives the property, or \<^verbatim>\<open>undefined\<close>, of any other
  value.
\<close>

fun read_message :: "thrown \<Rightarrow> string option option" where
  "read_message (SynapseApiError m c) = Some (Some m)"
| "read_message (AuthenticationError m) = Some (Some m)"
| "read_message (ConfigurationError m) = Some (Some m)"
| "read_message (StatusError m c) = Some (Some m)"
| "read_message (PlainError m) = Some (Some m)"
| "read_message (NonError v) = Some v"
| "read_message Nullish = None"

text \<open>
  \<^verbatim>\<open>getErrorHint\<close>, with \<^verbatim>\<open>error.message?.toLowerCase() || ''\<close>; \<open>None\<close> when reading the
  message throws.
\<close>

definition getErrorHint :: "thrown \<Rightarrow> string option" where
  "getErrorHint error =
     (case read_message error of
        None \<Rightarrow> None
      | Some message \<Rightarrow>
          Some
           (let errorMessage = (case message of None \<Rightarrow> [] | Some m \<Rightarrow> toLowerCase m) in
            if js_includes errorMessage ''login failed'' then
              ''Check your authentication credentials and ensure the user has access to the database''
            else if js_includes errorMessage ''cannot open database'' then
              ''Database does not exist or user lacks permission to access it''
            else if js_includes errorMessage ''syntax'' then
              ''SQL syntax error - review your query for typos or invalid SQL constructs''
            else if js_includes errorMessage ''timeout'' then
              ''Query took too long to execute - consider optimizing or increasing timeout''
            else if js_includes errorMessage ''connection'' then
              ''Connection issue - verify network connectivity and firewall settings''
            else ''Check Azure Synapse workspace settings and ensure proper permissions''))"

definition params_poolType :: "sql_params \<Rightarrow> PoolType" where
  "params_poolType params = (case p_poolType params of None \<Rightarrow> Serverless | Some k \<Rightarrow> k)"

definition params_tenant :: "sql_params \<Rightarrow> string" where
  "params_tenant params = (case or_else (p_tenant params) (Some ''default'') of
                             Some s \<Rightarrow> s | None \<Rightarrow> ''default'')"

text \<open>
  How far a call of \<^verbatim>\<open>executeSqlQuery\<close> has come: it has returned a payload, or its
  \<^verbatim>\<open>catch\<close> block has thrown a \<^verbatim>\<open>TypeError\<close> (so that its promise rejects), or it waits for
  the connection, or for the rows.
\<close>

datatype 'r sql_progress =
    Returns "'r tool_payload"
  | CatchThrows
  | WaitsForConnection gc_outcome
  | WaitsForRows

text \<open>
  The \<^verbatim>\<open>catch\<close> block of \<^verbatim>\<open>executeSqlQuery\<close>: the payload is built from \<^verbatim>\<open>error.message\<close>
  and the hint of the caught value, whatever it is.
\<close>

definition executeSqlQuery_catch :: "sql_params \<Rightarrow> thrown \<Rightarrow> 'r sql_progress" where
  "executeSqlQuery_catch params error =
     (case read_message error of
        None \<Rightarrow> CatchThrows
      | Some message \<Rightarrow>
          (case getErrorHint error of
             None \<Rightarrow> CatchThrows
           | Some hint \<Rightarrow>
               Returns (FailurePayload message hint
                 \<lparr>md_workspace = p_workspace params, md_database = p_database params,
                  md_poolType = params_poolType params, md_executionTime = None,
                  md_tenant = params_tenant params\<rparr>)))"

text \<open>
  The \<^verbatim>\<open>try\<close> block of \<^verbatim>\<open>executeSqlQuery\<close> up to its first suspension: it has thrown
  (\<open>Inl\<close>), or it has called \<^verbatim>\<open>getConnection\<close> and waits for the connection (\<open>Inr\<close>).
\<close>

definition executeSqlQuery_try ::
  "sql_params \<Rightarrow> TenantManager \<Rightarrow> 'r runtime \<Rightarrow> (thrown + gc_outcome) \<times> 'r runtime" where
  "executeSqlQuery_try params tm rt =
     (let poolType = params_poolType params;
          connString = getConnectionString tm (p_tenant params) (Some poolType)
      in if \<not> truthy connString then
           (Inl (PlainError (''No '' @ poolType_text poolType @ '' pool configured for tenant: ''
                   @ params_tenant params)), rt)
         else
           (let (started, rt') =
                  getConnection_sync (the connString) (p_workspace params) (p_database params)
                    (poolType_text poolType) rt
            in (Inr started, rt')))"

text \<open>\<^verbatim>\<open>executeSqlQuery\<close> up to its first suspension.\<close>

definition executeSqlQuery_start ::
  "sql_params \<Rightarrow> TenantManager \<Rightarrow> 'r runtime \<Rightarrow> 'r sql_progress \<times> 'r runtime" where
  "executeSqlQuery_start params tm rt =
     (case executeSqlQuery_try params tm rt of
        (Inl error, rt') \<Rightarrow> (executeSqlQuery_catch params error, rt')
      | (Inr started, rt') \<Rightarrow> (WaitsForConnection started, rt'))"

text \<open>
  From the connection on: a rejected \<^verbatim>\<open>getConnection\<close> is caught; otherwise the query is
  executed without parameters, and its rows, cached or delivered, make the success
  payload. \<open>executionTime\<close> is \<^verbatim>\<open>new Date().toISOString()\<close>.
\<close>

definition executeSqlQuery_success :: "sql_params \<Rightarrow> string \<Rightarrow> 'r list \<Rightarrow> 'r tool_payload" where
  "executeSqlQuery_success params executionTime results =
     SuccessPayload (length results) results
       \<lparr>md_workspace = p_workspace params, md_database = p_database params,
        md_poolType = params_poolType params, md_executionTime = Some executionTime,
        md_tenant = params_tenant params\<rparr>"

definition executeSqlQuery_connected ::
  "('p \<Rightarrow> string) \<Rightarrow> int \<Rightarrow> string \<Rightarrow> sql_params \<Rightarrow> thrown + nat \<Rightarrow> 'r runtime
     \<Rightarrow> 'r sql_progress \<times> 'r runtime" where
  "executeSqlQuery_connected stringify now executionTime params connection rt =
     (case connection of
        Inl error \<Rightarrow> (executeSqlQuery_catch params error, rt)
      | Inr c \<Rightarrow>
          (case executeQuery_sync stringify now c (p_query params) None rt of
             (Cached rows, rt') \<Rightarrow>
               (Returns (executeSqlQuery_success params executionTime rows), rt')
           | (Submitted, rt') \<Rightarrow> (WaitsForRows, rt')))"

definition executeSqlQuery_executed ::
  "('p \<Rightarrow> string) \<Rightarrow> int \<Rightarrow> string \<Rightarrow> sql_params \<Rightarrow> thrown + 'r list \<Rightarrow> 'r runtime
     \<Rightarrow> 'r sql_progress \<times> 'r runtime" where
  "executeSqlQuery_executed stringify now executionTime params response rt =
     (case executeQuery_complete stringify now (p_query params) None response rt of
        (Inl error, rt') \<Rightarrow> (executeSqlQuery_catch params error, rt')
      | (Inr results, rt') \<Rightarrow>
          (Returns (executeSqlQuery_success params executionTime results), rt'))"

section \<open>Example data\<close>

subsection \<open>Example tenants\<close>

definition acme_pools :: "SqlPool list" where
  "acme_pools =
     [\<lparr>pool_name = ''dw'', pool_type = Dedicated, connectionString = ''Server=d;''\<rparr>,
      \<lparr>pool_name = ''s1'', pool_type = Serverless, connectionString = ''Server=s1;''\<rparr>,
      \<lparr>pool_name = ''s2'', pool_type = Serverless, connectionString = ''Server=s2;''\<rparr>]"

definition acme :: TenantConfig where
  "acme = \<lparr>name = ''acme'', subscriptionId = ''sub'', resourceGroup = ''rg'',
           workspaceName = ''ws'', sqlPools = acme_pools,
           credentials = \<lparr>cred_type = Default_credentials, cred_tenantId = None,
                           cred_clientId = None, cred_clientSecret = None\<rparr>,
           region = None, tags = None\<rparr>"

definition dedicated_only :: TenantConfig where
  "dedicated_only = acme\<lparr>name := ''default'', sqlPools := [hd acme_pools]\<rparr>"

definition empty_manager :: TenantManager where
  "empty_manager = \<lparr>tenants = Map.empty, credentials_map = Map.empty, defaultTenant = None\<rparr>"

definition two_tenants :: TenantManager where
  "two_tenants = addTenant ''default'' dedicated_only (addTenant ''acme'' acme empty_manager)"

subsection \<open>Example operations\<close>

definition flaky_op :: "nat \<Rightarrow> (thrown + nat) \<times> nat" where
  "flaky_op n = (if n < 2 then Inl (PlainError ''ECONNRESET'') else Inr n, Suc n)"

definition unavailable_op :: "nat \<Rightarrow> (thrown + nat) \<times> nat" where
  "unavailable_op n = (Inl (SynapseApiError ''unavailable'' 503), Suc n)"

definition not_found_op :: "nat \<Rightarrow> (thrown + nat) \<times> nat" where
  "not_found_op n = (Inl (SynapseApiError ''not found'' 404), Suc n)"

text \<open>An operation that always fails with an error of another class that carries status 404.\<close>

definition other_not_found_op :: "nat \<Rightarrow> (thrown + nat) \<times> nat" where
  "other_not_found_op n = (Inl (StatusError ''not found'' 404), Suc n)"

subsection \<open>Example credentials and services\<close>

definition issuing_credential :: "nat \<Rightarrow> (thrown + AccessToken option) \<times> nat" where
  "issuing_credential n =
     (Inr (Some \<lparr>token = ''tok'', expiresOnTimestamp = Some 4000000\<rparr>), Suc n)"

definition failing_credential :: "nat \<Rightarrow> (thrown + AccessToken option) \<times> nat" where
  "failing_credential n = (Inl (PlainError ''AADSTS700016''), Suc n)"

definition stale_service :: "nat AzureAuthService" where
  "stale_service =
     \<lparr>cachedToken = Some \<lparr>token = ''old'', expiresOnTimestamp = Some 1200000\<rparr>,
      credential = 0, getToken_calls = 0\<rparr>"

definition fresh_service :: "nat AzureAuthService" where
  "fresh_service = \<lparr>cachedToken = None, credential = 0, getToken_calls = 0\<rparr>"

subsection \<open>Example runs of the pool\<close>

text \<open>
  Parameters are not used in the examples, rows are strings. \<open>one_caller\<close> is a first call
  for a key; \<open>busy_session_second_call\<close> connects a session, runs a statement on it, and
  calls \<^verbatim>\<open>getConnection\<close> for the same key while the statement is running.
\<close>

definition no_parameters :: "unit \<Rightarrow> string" where
  "no_parameters u = ''{}''"

definition acme_key :: string where
  "acme_key = getConnectionKey ''ws'' ''db1'' ''dedicated''"

definition one_caller :: "(unit, string) event list" where
  "one_caller = [GetConnection ''Server=d;'' ''ws'' ''db1'' ''dedicated'']"

definition other_key_call :: "(unit, string) event list" where
  "other_key_call = [GetConnection ''Server=d;'' ''ws'' ''db2'' ''dedicated'']"

definition after_first_call :: "string runtime" where
  "after_first_call = snd (getConnection_sync ''Server=d;'' ''ws'' ''db1'' ''dedicated'' (initial 300))"

definition before_second_call :: "string runtime" where
  "before_second_call = snd (getConnection_sync ''Server=d;'' ''ws'' ''db2'' ''dedicated'' after_first_call)"

definition busy_session_second_call :: "(unit, string) event list" where
  "busy_session_second_call =
     [GetConnection ''Server=d;'' ''ws'' ''db1'' ''dedicated'',
      ConnectEvent 0 None,
      ResumeGetConnection ''ws-db1-dedicated'' 0,
      ExecuteQuery 1000 0 ''SELECT 1'' None,
      GetConnection ''Server=d;'' ''ws'' ''db1'' ''dedicated'']"

subsection \<open>Example requests\<close>

definition serverless_request :: sql_params where
  "serverless_request =
     \<lparr>p_workspace = ''ws'', p_database = ''db1'', p_query = ''SELECT 1'',
      p_poolType = None, p_tenant = None\<rparr>"

section \<open>Tenant manager: proofs\<close>

lemma find_first_descriptor:
  "map_option connectionString (List.find (\<lambda>p. pool_type p = k) ps) = first_descriptor_of_kind ps k"
  by (induction ps) auto

lemma first_descriptor_Some_iff:
  "first_descriptor_of_kind ps k = Some cs \<longleftrightarrow>
     (\<exists>i<length ps. pool_type (ps ! i) = k \<and> (\<forall>j<i. pool_type (ps ! j) \<noteq> k)
        \<and> connectionString (ps ! i) = cs)"
  unfolding find_first_descriptor [symmetric]
  by (auto simp: find_Some_iff)

lemma first_descriptor_None_iff:
  "first_descriptor_of_kind ps k = None \<longleftrightarrow> (\<forall>p\<in>set ps. pool_type p \<noteq> k)"
  by (induction ps) auto

lemma resolve_omitted:
  "resolveTenantName tm None =
     (case defaultTenant tm of
        None \<Rightarrow> ''default''
      | Some d \<Rightarrow> if d = [] then ''default'' else d)"
  by (simp add: resolveTenantName_def or_else_def truthy_def split: option.splits)

text \<open>
  C7. An omitted tenant name resolves to the explicitly set default tenant, and to the
  tenant registered as "default" when no default is set; the lookup is absent when that
  name is not registered. For the resolved tenant the connection string returned is the
  one of the first pool of the requested kind in list order; the lookup is absent
  exactly when the tenant is absent or has no pool of that kind.
\<close>

theorem getConnectionString_first_match:
  "getTenant tm None =
     (case defaultTenant tm of
        None \<Rightarrow> tenants tm ''default''
      | Some d \<Rightarrow> if d = [] then tenants tm ''default'' else tenants tm d)
   \<and> getConnectionString tm n (Some k) =
       (case getTenant tm n of
          None \<Rightarrow> None
        | Some t \<Rightarrow> first_descriptor_of_kind (sqlPools t) k)
   \<and> (getConnectionString tm n (Some k) = Some cs \<longleftrightarrow>
        (\<exists>t i. getTenant tm n = Some t \<and> i < length (sqlPools t)
           \<and> pool_type (sqlPools t ! i) = k
           \<and> (\<forall>j<i. pool_type (sqlPools t ! j) \<noteq> k)
           \<and> connectionString (sqlPools t ! i) = cs))
   \<and> (getConnectionString tm n (Some k) = None \<longleftrightarrow>
        (getTenant tm n = None
         \<or> (\<exists>t. getTenant tm n = Some t \<and> (\<forall>p\<in>set (sqlPools t). pool_type p \<noteq> k))))"
proof -
  have a: "getTenant tm None =
     (case defaultTenant tm of
        None \<Rightarrow> tenants tm ''default''
      | Some d \<Rightarrow> if d = [] then tenants tm ''default'' else tenants tm d)"
    by (simp add: getTenant_def resolve_omitted split: option.splits)
  have b: "getConnectionString tm n (Some k) =
       (case getTenant tm n of
          None \<Rightarrow> None
        | Some t \<Rightarrow> first_descriptor_of_kind (sqlPools t) k)"
    by (simp add: getConnectionString_def find_first_descriptor split: option.splits)
  have c: "getConnectionString tm n (Some k) = Some cs \<longleftrightarrow>
        (\<exists>t i. getTenant tm n = Some t \<and> i < length (sqlPools t)
           \<and> pool_type (sqlPools t ! i) = k
           \<and> (\<forall>j<i. pool_type (sqlPools t ! j) \<noteq> k)
           \<and> connectionString (sqlPools t ! i) = cs)"
    unfolding b by (cases "getTenant tm n") (auto simp: first_descriptor_Some_iff)
  have d: "getConnectionString tm n (Some k) = None \<longleftrightarrow>
        (getTenant tm n = None
         \<or> (\<exists>t. getTenant tm n = Some t \<and> (\<forall>p\<in>set (sqlPools t). pool_type p \<noteq> k)))"
    unfolding b by (cases "getTenant tm n") (auto simp: first_descriptor_None_iff)
  from a b c d show ?thesis by blast
qed

lemma two_tenants_acme: "getTenant two_tenants (Some ''acme'') = Some acme"
  by (simp add: two_tenants_def addTenant_def empty_manager_def getTenant_def
      resolveTenantName_def or_else_def truthy_def)

lemma two_tenants_default: "getTenant two_tenants None = Some dedicated_only"
  by (simp add: two_tenants_def addTenant_def empty_manager_def getTenant_def
      resolveTenantName_def or_else_def truthy_def)

theorem getConnectionString_first_match_witness:
  "getConnectionString two_tenants (Some ''acme'') (Some Serverless) = Some ''Server=s1;''
   \<and> getConnectionString two_tenants None (Some Serverless) = None
   \<and> getTenant two_tenants None = tenants two_tenants ''default''"
proof -
  have "getConnectionString two_tenants (Some ''acme'') (Some Serverless) = Some ''Server=s1;''"
    using getConnectionString_first_match [of two_tenants "Some ''acme''" Serverless "''Server=s1;''"]
    by (simp add: two_tenants_acme acme_def acme_pools_def)
  moreover have "getConnectionString two_tenants None (Some Serverless) = None"
    using getConnectionString_first_match [of two_tenants None Serverless "[]"]
    by (simp add: two_tenants_default dedicated_only_def acme_def acme_pools_def)
  moreover have "getTenant two_tenants None = tenants two_tenants ''default''"
    using getConnectionString_first_match [of two_tenants None Serverless "[]"]
    by (simp add: two_tenants_def addTenant_def empty_manager_def)
  ultimately show ?thesis by blast
qed

text \<open>
  C10. Removing a tenant deletes its configuration entry and its credential object,
  resets the default when the removed tenant was the default, and leaves the default and
  every other tenant's configuration and credential as they were.
\<close>

theorem removeTenant_frame:
  "tenants (removeTenant n tm) n = None
   \<and> credentials_map (removeTenant n tm) n = None
   \<and> (defaultTenant tm = Some n \<longrightarrow> defaultTenant (removeTenant n tm) = None)
   \<and> (defaultTenant tm \<noteq> Some n \<longrightarrow> defaultTenant (removeTenant n tm) = defaultTenant tm)
   \<and> (\<forall>m. m \<noteq> n \<longrightarrow> tenants (removeTenant n tm) m = tenants tm m
          \<and> credentials_map (removeTenant n tm) m = credentials_map tm m)"
  by (simp add: removeTenant_def Let_def)

theorem removeTenant_frame_witness:
  "tenants two_tenants ''acme'' = Some acme
   \<and> tenants (removeTenant ''acme'' two_tenants) ''acme'' = None
   \<and> credentials_map (removeTenant ''acme'' two_tenants) ''acme'' = None
   \<and> tenants (removeTenant ''acme'' two_tenants) ''default'' = Some dedicated_only
   \<and> credentials_map (removeTenant ''acme'' two_tenants) ''default'' = Some DefaultAzureCredential
   \<and> defaultTenant (removeTenant ''acme'' (two_tenants\<lparr>defaultTenant := Some ''acme''\<rparr>)) = None"
proof -
  have reg: "tenants two_tenants ''acme'' = Some acme"
     and other: "tenants two_tenants ''default'' = Some dedicated_only"
     and cred: "credentials_map two_tenants ''default'' = Some DefaultAzureCredential"
    by (simp_all add: two_tenants_def addTenant_def empty_manager_def createCredentialFor_def
        dedicated_only_def acme_def)
  have ne: "''default'' \<noteq> ''acme''" by simp
  show ?thesis
    using removeTenant_frame [of "''acme''" two_tenants]
      removeTenant_frame [of "''acme''" "two_tenants\<lparr>defaultTenant := Some ''acme''\<rparr>"]
      reg other cred ne
    by simp
qed

section \<open>Resilient request executor: proofs\<close>

lemma backoff_Suc: "backoff b a (Suc k) = (b * 2 ^ a) # backoff b (Suc a) k"
  unfolding backoff_def
  by (simp add: upt_conv_Cons map_Suc_upt [symmetric] del: upt_Suc)

lemma nth_result_0: "nth_result operation s 0 = fst (operation s)"
  by (simp add: nth_result_def)

lemma nth_result_Suc: "nth_result operation s (Suc i) = nth_result operation (snd (operation s)) i"
  by (simp add: nth_result_def)

lemma retry_loop_succeeds:
  "0 \<le> a \<Longrightarrow> a + int k \<le> maxRetries \<Longrightarrow>
   (\<forall>i<k. transient_failure (nth_result operation s i)) \<Longrightarrow>
   nth_result operation s k = Inr v \<Longrightarrow>
   retry_loop operation maxRetries baseDelay a le s calls ds =
     \<lparr>outcome = Inr v, op_state = state_before operation s (Suc k),
      invocations = calls + k + 1, sleeps = ds @ backoff baseDelay (nat a) k\<rparr>"
proof (induction k arbitrary: a le s calls ds)
  case 0
  then obtain s' where "operation s = (Inr v, s')"
    by (cases "operation s") (simp add: nth_result_0)
  with 0 show ?case
    by (simp add: retry_loop.simps [of operation maxRetries baseDelay a] backoff_def)
next
  case (Suc k)
  from Suc.prems(3) have t0: "transient_failure (nth_result operation s 0)" by blast
  then obtain e s' where os: "operation s = (Inl e, s')" and ne: "\<not> is_client_error e"
    by (cases "operation s"; cases "fst (operation s)")
       (auto simp: nth_result_0 transient_failure_def)
  have rest: "\<forall>i<k. transient_failure (nth_result operation s' i)"
    using Suc.prems(3) os by (auto simp: nth_result_Suc dest: spec [of _ "Suc _"])
  have last: "nth_result operation s' k = Inr v"
    using Suc.prems(4) os by (simp add: nth_result_Suc)
  have "retry_loop operation maxRetries baseDelay (a + 1) (Some e) s' (calls + 1)
          (ds @ [baseDelay * 2 ^ nat a]) =
        \<lparr>outcome = Inr v, op_state = state_before operation s' (Suc k),
         invocations = (calls + 1) + k + 1,
         sleeps = (ds @ [baseDelay * 2 ^ nat a]) @ backoff baseDelay (nat (a + 1)) k\<rparr>"
    using Suc.prems(1,2) by (intro Suc.IH rest last) auto
  moreover have "nat (a + 1) = Suc (nat a)" using Suc.prems(1) by simp
  ultimately show ?case
    using Suc.prems(1,2) os ne
    by (simp add: retry_loop.simps [of operation maxRetries baseDelay a] backoff_Suc)
qed

lemma retry_loop_exhausted:
  "0 \<le> a \<Longrightarrow> a + int k = maxRetries \<Longrightarrow>
   (\<forall>i\<le>k. transient_failure (nth_result operation s i)) \<Longrightarrow>
   \<exists>e. nth_result operation s k = Inl e \<and>
   retry_loop operation maxRetries baseDelay a le s calls ds =
     \<lparr>outcome = Inl (Some e), op_state = state_before operation s (Suc k),
      invocations = calls + k + 1, sleeps = ds @ backoff baseDelay (nat a) k\<rparr>"
proof (induction k arbitrary: a le s calls ds)
  case 0
  from 0(3) have "transient_failure (nth_result operation s 0)" by blast
  then obtain e s' where os: "operation s = (Inl e, s')"
    by (cases "operation s"; cases "fst (operation s)")
       (auto simp: nth_result_0 transient_failure_def)
  with 0 show ?case
    by (subst retry_loop.simps) (simp add: backoff_def nth_result_0)
next
  case (Suc k)
  from Suc.prems(3) have t0: "transient_failure (nth_result operation s 0)" by blast
  then obtain e s' where os: "operation s = (Inl e, s')" and ne: "\<not> is_client_error e"
    by (cases "operation s"; cases "fst (operation s)")
       (auto simp: nth_result_0 transient_failure_def)
  have rest: "\<forall>i\<le>k. transient_failure (nth_result operation s' i)"
    using Suc.prems(3) os by (auto simp: nth_result_Suc dest: spec [of _ "Suc _"])
  have "\<exists>e'. nth_result operation s' k = Inl e' \<and>
        retry_loop operation maxRetries baseDelay (a + 1) (Some e) s' (calls + 1)
          (ds @ [baseDelay * 2 ^ nat a]) =
        \<lparr>outcome = Inl (Some e'), op_state = state_before operation s' (Suc k),
         invocations = (calls + 1) + k + 1,
         sleeps = (ds @ [baseDelay * 2 ^ nat a]) @ backoff baseDelay (nat (a + 1)) k\<rparr>"
    using Suc.prems(1,2) by (intro Suc.IH rest) auto
  moreover have "nat (a + 1) = Suc (nat a)" using Suc.prems(1) by simp
  ultimately show ?case
    using Suc.prems(1,2) os ne
    by (simp add: retry_loop.simps [of operation maxRetries baseDelay a] backoff_Suc nth_result_Suc)
qed

lemma retry_loop_bound:
  "invocations (retry_loop operation maxRetries baseDelay a le s calls ds)
     \<le> calls + nat (maxRetries + 1 - a)"
proof (induction operation maxRetries baseDelay a le s calls ds rule: retry_loop.induct)
  case (1 operation maxRetries baseDelay attempt lastError s calls ds)
  show ?case
  proof (cases "attempt \<le> maxRetries")
    case False
    then show ?thesis by (simp add: retry_loop.simps [of operation maxRetries baseDelay attempt])
  next
    case True
    obtain r s' where os: "operation s = (r, s')" by (cases "operation s")
    show ?thesis
    proof (cases r)
      case (Inr v)
      with True os show ?thesis
        by (simp add: retry_loop.simps [of operation maxRetries baseDelay attempt])
    next
      case (Inl e)
      show ?thesis
      proof (cases "attempt = maxRetries \<or> is_client_error e")
        case True
        with \<open>attempt \<le> maxRetries\<close> os Inl show ?thesis
          by (auto simp: retry_loop.simps [of operation maxRetries baseDelay attempt])
      next
        case False
        then have "invocations (retry_loop operation maxRetries baseDelay (attempt + 1) (Some e) s'
                     (calls + 1) (ds @ [baseDelay * 2 ^ nat attempt]))
                   \<le> (calls + 1) + nat (maxRetries + 1 - (attempt + 1))"
          using "1.IH" [OF True os [symmetric] Inl] by simp
        with False \<open>attempt \<le> maxRetries\<close> os Inl show ?thesis
          by (simp add: retry_loop.simps [of operation maxRetries baseDelay attempt])
      qed
    qed
  qed
qed


lemma retry_loop_shape:
  "0 \<le> a \<Longrightarrow> a \<le> maxRetries \<Longrightarrow>
   \<exists>k. a + int k \<le> maxRetries
     \<and> invocations (retry_loop operation maxRetries baseDelay a le s calls ds) = calls + k + 1
     \<and> sleeps (retry_loop operation maxRetries baseDelay a le s calls ds)
         = ds @ backoff baseDelay (nat a) k"
proof (induction operation maxRetries baseDelay a le s calls ds rule: retry_loop.induct)
  case (1 operation maxRetries baseDelay attempt lastError s calls ds)
  note le = \<open>attempt \<le> maxRetries\<close> and nn = \<open>0 \<le> attempt\<close>
  obtain r s' where os: "operation s = (r, s')" by (cases "operation s")
  have stop: "\<exists>k. attempt + int k \<le> maxRetries \<and> Suc calls = calls + k + 1
                \<and> ds = ds @ backoff baseDelay (nat attempt) k"
    using le by (intro exI [of _ 0]) (simp add: backoff_def)
  show ?case
  proof (cases r)
    case (Inr v)
    with le os stop show ?thesis
      by (subst (1 2) retry_loop.simps) simp
  next
    case (Inl e)
    show ?thesis
    proof (cases "attempt = maxRetries \<or> is_client_error e")
      case True
      with le os Inl stop show ?thesis
        by (subst (1 2) retry_loop.simps) auto
    next
      case False
      then have lt: "attempt + 1 \<le> maxRetries" using le by simp
      from "1.IH" [OF le os [symmetric] Inl] False nn lt
      obtain k where k: "attempt + 1 + int k \<le> maxRetries"
        "invocations (retry_loop operation maxRetries baseDelay (attempt + 1) (Some e) s'
           (calls + 1) (ds @ [baseDelay * 2 ^ nat attempt])) = calls + 1 + k + 1"
        "sleeps (retry_loop operation maxRetries baseDelay (attempt + 1) (Some e) s'
           (calls + 1) (ds @ [baseDelay * 2 ^ nat attempt]))
         = (ds @ [baseDelay * 2 ^ nat attempt]) @ backoff baseDelay (nat (attempt + 1)) k"
        by auto
      have "nat (attempt + 1) = Suc (nat attempt)" using nn by simp
      with k False le os Inl show ?thesis
        by (subst (1 2) retry_loop.simps) (auto simp: backoff_Suc intro!: exI [of _ "Suc k"])
    qed
  qed
qed

lemma retry_loop_not_entered:
  "maxRetries < a \<Longrightarrow>
   retry_loop operation maxRetries baseDelay a le s calls ds =
     \<lparr>outcome = Inl le, op_state = s, invocations = calls, sleeps = ds\<rparr>"
  by (subst retry_loop.simps) simp

lemma retry_loop_client_error:
  "a \<le> maxRetries \<Longrightarrow> operation s = (Inl e, s') \<Longrightarrow> is_client_error e \<Longrightarrow>
   retry_loop operation maxRetries baseDelay a le s calls ds =
     \<lparr>outcome = Inl (Some e), op_state = s', invocations = calls + 1, sleeps = ds\<rparr>"
  by (subst retry_loop.simps) simp

lemma retryOperation_no_attempts:
  "maxRetries < 0 \<Longrightarrow>
   retryOperation operation maxRetries baseDelay s =
     \<lparr>outcome = Inl None, op_state = s, invocations = 0, sleeps = []\<rparr>"
  unfolding retryOperation_def by (simp add: retry_loop_not_entered)

lemma retry_loop_retries:
  "a < maxRetries \<Longrightarrow> operation s = (Inl e, s') \<Longrightarrow> \<not> is_client_error e \<Longrightarrow>
   retry_loop operation maxRetries baseDelay a le s calls ds =
     retry_loop operation maxRetries baseDelay (a + 1) (Some e) s' (calls + 1)
       (ds @ [baseDelay * 2 ^ nat a])"
  by (subst retry_loop.simps) simp

lemma is_client_error_iff:
  "is_client_error e \<longleftrightarrow> (\<exists>m c. e = SynapseApiError m c \<and> 400 \<le> c \<and> c < 500)"
  by (cases e) (simp_all add: is_client_error_def)

text \<open>
  C2, as stated, fails. \<open>other_not_found_op\<close> always fails with an error that carries the
  status 404 and is not a \<open>SynapseApiError\<close>; the test \<^verbatim>\<open>error instanceof SynapseApiError\<close>
  does not hold for it, so with the default arguments it is invoked four times, after
  delays of 1000, 2000 and 4000.
\<close>

theorem retryOperation_other_class_status_retried:
  "carried_status (StatusError ''not found'' 404) = Some 404
   \<and> fst (other_not_found_op 0) = Inl (StatusError ''not found'' 404)
   \<and> retryOperation other_not_found_op 3 1000 0 =
       \<lparr>outcome = Inl (Some (StatusError ''not found'' 404)), op_state = 4,
        invocations = 4, sleeps = [1000, 2000, 4000]\<rparr>"
proof -
  have r: "nth_result other_not_found_op 0 i = Inl (StatusError ''not found'' 404)" for i
    by (simp add: nth_result_def other_not_found_op_def)
  have s: "state_before other_not_found_op n k = n + k" for n k
    by (induction k arbitrary: n) (simp_all add: other_not_found_op_def)
  have "\<forall>i\<le>3. transient_failure (nth_result other_not_found_op 0 i)"
    by (simp add: r transient_failure_def is_client_error_def)
  from retry_loop_exhausted [of 0 3 3 other_not_found_op 0 1000 None 0 "[]", OF _ _ this]
  have "retryOperation other_not_found_op 3 1000 0 =
       \<lparr>outcome = Inl (Some (StatusError ''not found'' 404)), op_state = 4,
        invocations = 4, sleeps = [1000, 2000, 4000]\<rparr>"
    unfolding retryOperation_def
    by (auto simp add: r s backoff_def numeral_3_eq_3 simp del: state_before.simps)
  then show ?thesis by (simp add: other_not_found_op_def)
qed

text \<open>
  C2, amended. With \<open>0 \<le> maxRetries\<close> (below zero the loop body never runs, see
  \<open>retryOperation_no_attempts\<close>): when the operation fails with a \<open>SynapseApiError\<close> whose
  status code lies in \<open>[400, 500)\<close> (as it does at every call when it always fails so),
  \<^verbatim>\<open>retryOperation\<close> invokes it exactly once, sleeps for no delay and rejects with that very
  error. Only a \<open>SynapseApiError\<close> is classified by its status: when the operation fails
  with a value of any other class, whatever status it carries, and a retry is left, the
  operation is invoked again after the delay \<open>baseDelay\<close>.
\<close>

theorem retryOperation_client_error_once:
  assumes "0 \<le> maxRetries" and "operation s = (Inl e, s')"
  shows "(\<forall>m c. e = SynapseApiError m c \<and> 400 \<le> c \<and> c < 500
            \<longrightarrow> retryOperation operation maxRetries baseDelay s =
                  \<lparr>outcome = Inl (Some e), op_state = s', invocations = 1, sleeps = []\<rparr>)
     \<and> ((\<forall>m c. e \<noteq> SynapseApiError m c) \<and> 0 < maxRetries
            \<longrightarrow> 2 \<le> invocations (retryOperation operation maxRetries baseDelay s)
                \<and> take 1 (sleeps (retryOperation operation maxRetries baseDelay s))
                    = [baseDelay])"
proof (intro conjI allI impI)
  fix m c
  assume "e = SynapseApiError m c \<and> 400 \<le> c \<and> c < 500"
  then have "is_client_error e" by (simp add: is_client_error_def)
  with assms show "retryOperation operation maxRetries baseDelay s =
      \<lparr>outcome = Inl (Some e), op_state = s', invocations = 1, sleeps = []\<rparr>"
    unfolding retryOperation_def by (simp add: retry_loop_client_error)
next
  assume h: "(\<forall>m c. e \<noteq> SynapseApiError m c) \<and> 0 < maxRetries"
  then have nc: "\<not> is_client_error e" by (simp add: is_client_error_iff)
  from h have lt: "(0::int) < maxRetries" by simp
  have unfold: "retryOperation operation maxRetries baseDelay s =
      retry_loop operation maxRetries baseDelay 1 (Some e) s' 1 [baseDelay]"
    unfolding retryOperation_def
    using retry_loop_retries [where operation = operation and s = s and a = 0
        and baseDelay = baseDelay and le = None and calls = 0 and ds = "[]", OF lt assms(2) nc]
    by simp
  from retry_loop_shape [of 1 maxRetries operation baseDelay "Some e" s' 1 "[baseDelay]"] lt
  obtain k where
    "invocations (retry_loop operation maxRetries baseDelay 1 (Some e) s' 1 [baseDelay])
       = 1 + k + 1"
    "sleeps (retry_loop operation maxRetries baseDelay 1 (Some e) s' 1 [baseDelay])
       = [baseDelay] @ backoff baseDelay (nat 1) k"
    by auto
  then show "2 \<le> invocations (retryOperation operation maxRetries baseDelay s)"
    and "take 1 (sleeps (retryOperation operation maxRetries baseDelay s)) = [baseDelay]"
    unfolding unfold by simp_all
qed

theorem retryOperation_client_error_once_witness:
  "retryOperation not_found_op 3 1000 0 =
     \<lparr>outcome = Inl (Some (SynapseApiError ''not found'' 404)), op_state = 1,
      invocations = 1, sleeps = []\<rparr>
   \<and> 2 \<le> invocations (retryOperation other_not_found_op 3 1000 0)
   \<and> take 1 (sleeps (retryOperation other_not_found_op 3 1000 0)) = [1000]"
proof -
  have z: "(0::int) \<le> 3" by simp
  have a: "not_found_op 0 = (Inl (SynapseApiError ''not found'' 404), 1)"
    and b: "other_not_found_op 0 = (Inl (StatusError ''not found'' 404), 1)"
    by (simp_all add: not_found_op_def other_not_found_op_def)
  have ca: "SynapseApiError ''not found'' 404 = SynapseApiError ''not found'' 404
      \<and> (400::int) \<le> 404 \<and> (404::int) < 500"
    by simp
  have cb: "(\<forall>m c. StatusError ''not found'' 404 \<noteq> SynapseApiError m c) \<and> (0::int) < 3"
    by simp
  from retryOperation_client_error_once
      [where operation = not_found_op and s = 0 and baseDelay = 1000, OF z a,
       THEN conjunct1, rule_format, OF ca]
    retryOperation_client_error_once
      [where operation = other_not_found_op and s = 0 and baseDelay = 1000, OF z b,
       THEN conjunct2, THEN mp, OF cb]
  show ?thesis by simp
qed

text \<open>
  C5. With \<open>0 \<le> maxRetries\<close>: every run makes \<open>k + 1 \<le> maxRetries + 1\<close> invocations and
  sleeps exactly the delays \<open>baseDelay \<times> 2^i\<close> for \<open>i < k\<close>, one before each retry; if the
  first \<open>n\<close> invocations fail with errors that are not client errors and the next one
  succeeds, \<open>n \<le> maxRetries\<close>, the run returns that result after \<open>n + 1\<close> invocations; if
  all \<open>maxRetries + 1\<close> invocations fail so, the run rejects with the error of the last
  one and has slept \<open>maxRetries\<close> times. A call with the default arguments is the call with
  \<open>maxRetries = 3\<close> and \<open>baseDelay = 1000\<close>: it makes at most 4 invocations; a success at
  invocation \<open>n + 1 \<le> 4\<close> after \<open>n\<close> such failures is returned after the first \<open>n\<close> of the
  delays 1000, 2000, 4000; four such failures make exactly 4 invocations with all three
  delays and reject with the fourth error.
\<close>

theorem retryOperation_transient_backoff:
  assumes "0 \<le> maxRetries"
  shows "(\<exists>k\<le>nat maxRetries.
            invocations (retryOperation operation maxRetries baseDelay s) = k + 1
            \<and> sleeps (retryOperation operation maxRetries baseDelay s) = backoff baseDelay 0 k)
     \<and> (\<forall>n v. int n \<le> maxRetries
            \<and> (\<forall>i<n. transient_failure (nth_result operation s i))
            \<and> nth_result operation s n = Inr v
          \<longrightarrow> retryOperation operation maxRetries baseDelay s =
                \<lparr>outcome = Inr v, op_state = state_before operation s (Suc n),
                 invocations = n + 1, sleeps = backoff baseDelay 0 n\<rparr>)
     \<and> ((\<forall>i\<le>nat maxRetries. transient_failure (nth_result operation s i))
          \<longrightarrow> (\<exists>e. nth_result operation s (nat maxRetries) = Inl e
                \<and> retryOperation operation maxRetries baseDelay s =
                    \<lparr>outcome = Inl (Some e),
                     op_state = state_before operation s (Suc (nat maxRetries)),
                     invocations = nat maxRetries + 1,
                     sleeps = backoff baseDelay 0 (nat maxRetries)\<rparr>))
     \<and> invocations (retryOperation_default operation s) \<le> 4
     \<and> (\<exists>k\<le>3. sleeps (retryOperation_default operation s) = take k [1000, 2000, 4000])
     \<and> retryOperation_default operation s = retryOperation operation 3 1000 s
     \<and> (\<forall>n v. n \<le> 3
            \<and> (\<forall>i<n. transient_failure (nth_result operation s i))
            \<and> nth_result operation s n = Inr v
          \<longrightarrow> retryOperation_default operation s =
                \<lparr>outcome = Inr v, op_state = state_before operation s (Suc n),
                 invocations = n + 1, sleeps = take n [1000, 2000, 4000]\<rparr>)
     \<and> ((\<forall>i\<le>3. transient_failure (nth_result operation s i))
          \<longrightarrow> (\<exists>e. nth_result operation s 3 = Inl e
                \<and> retryOperation_default operation s =
                    \<lparr>outcome = Inl (Some e), op_state = state_before operation s 4,
                     invocations = 4, sleeps = [1000, 2000, 4000]\<rparr>))"
proof -
  have shape: "\<exists>k\<le>nat mr.
            invocations (retryOperation operation mr bd s) = k + 1
            \<and> sleeps (retryOperation operation mr bd s) = backoff bd 0 k" if "0 \<le> mr" for mr bd
  proof -
    from retry_loop_shape [of 0 mr operation bd None s 0 "[]"] that
    obtain k where "int k \<le> mr"
      "invocations (retry_loop operation mr bd 0 None s 0 []) = k + 1"
      "sleeps (retry_loop operation mr bd 0 None s 0 []) = backoff bd 0 k"
      by auto
    then show ?thesis
      unfolding retryOperation_def by (intro exI [of _ k]) auto
  qed
  have succ: "retryOperation operation mr bd s =
                \<lparr>outcome = Inr v, op_state = state_before operation s (Suc n),
                 invocations = n + 1, sleeps = backoff bd 0 n\<rparr>"
    if "int n \<le> mr" "\<forall>i<n. transient_failure (nth_result operation s i)"
       "nth_result operation s n = Inr v" for n v mr bd
    unfolding retryOperation_def
    using retry_loop_succeeds [of 0 n mr operation s v bd None 0 "[]"] that
    by simp
  have exh: "\<exists>e. nth_result operation s (nat mr) = Inl e
                \<and> retryOperation operation mr bd s =
                    \<lparr>outcome = Inl (Some e),
                     op_state = state_before operation s (Suc (nat mr)),
                     invocations = nat mr + 1,
                     sleeps = backoff bd 0 (nat mr)\<rparr>"
    if "\<forall>i\<le>nat mr. transient_failure (nth_result operation s i)" "0 \<le> mr" for mr bd
    unfolding retryOperation_def
    using retry_loop_exhausted [of 0 "nat mr" mr operation s bd None 0 "[]"] that
    by simp
  have sched: "backoff 1000 0 k = take k [1000, 2000, 4000]" if "k \<le> 3" for k
  proof -
    from that consider "k = 0" | "k = 1" | "k = 2" | "k = 3" by linarith
    then show ?thesis
      by cases (simp_all add: backoff_def numeral_2_eq_2 numeral_3_eq_3)
  qed
  have dflt: "retryOperation_default operation s = retryOperation operation 3 1000 s"
    by (simp add: retryOperation_default_def default_maxRetries_def default_baseDelay_def)
  from shape [of 3 1000] obtain k where k: "k \<le> 3"
      "invocations (retryOperation operation 3 1000 s) = k + 1"
      "sleeps (retryOperation operation 3 1000 s) = backoff 1000 0 k"
    by auto
  with sched [of k] have bound: "invocations (retryOperation_default operation s) \<le> 4"
    "\<exists>k\<le>3. sleeps (retryOperation_default operation s) = take k [1000, 2000, 4000]"
    unfolding dflt by auto
  have dsucc: "retryOperation_default operation s =
                \<lparr>outcome = Inr v, op_state = state_before operation s (Suc n),
                 invocations = n + 1, sleeps = take n [1000, 2000, 4000]\<rparr>"
    if "n \<le> 3" "\<forall>i<n. transient_failure (nth_result operation s i)"
       "nth_result operation s n = Inr v" for n v
    unfolding dflt using succ [of n 3 v 1000] that sched [of n] by simp
  have dexh: "\<exists>e. nth_result operation s 3 = Inl e
                \<and> retryOperation_default operation s =
                    \<lparr>outcome = Inl (Some e), op_state = state_before operation s 4,
                     invocations = 4, sleeps = [1000, 2000, 4000]\<rparr>"
    if "\<forall>i\<le>3. transient_failure (nth_result operation s i)"
  proof -
    from exh [of 3 1000] that obtain e where "nth_result operation s 3 = Inl e"
      "retryOperation operation 3 1000 s =
         \<lparr>outcome = Inl (Some e), op_state = state_before operation s (Suc 3),
          invocations = 3 + 1, sleeps = backoff 1000 0 3\<rparr>"
      by auto
    then show ?thesis
      unfolding dflt using sched [of 3] by (intro exI [of _ e]) (simp del: state_before.simps)
  qed
  show ?thesis
  proof (intro conjI)
    show "\<exists>k\<le>nat maxRetries.
            invocations (retryOperation operation maxRetries baseDelay s) = k + 1
            \<and> sleeps (retryOperation operation maxRetries baseDelay s) = backoff baseDelay 0 k"
      by (rule shape [OF assms])
    show "\<forall>n v. int n \<le> maxRetries
            \<and> (\<forall>i<n. transient_failure (nth_result operation s i))
            \<and> nth_result operation s n = Inr v
          \<longrightarrow> retryOperation operation maxRetries baseDelay s =
                \<lparr>outcome = Inr v, op_state = state_before operation s (Suc n),
                 invocations = n + 1, sleeps = backoff baseDelay 0 n\<rparr>"
      using succ by blast
    show "(\<forall>i\<le>nat maxRetries. transient_failure (nth_result operation s i))
          \<longrightarrow> (\<exists>e. nth_result operation s (nat maxRetries) = Inl e
                \<and> retryOperation operation maxRetries baseDelay s =
                    \<lparr>outcome = Inl (Some e),
                     op_state = state_before operation s (Suc (nat maxRetries)),
                     invocations = nat maxRetries + 1,
                     sleeps = backoff baseDelay 0 (nat maxRetries)\<rparr>)"
      using exh [OF _ assms] by blast
    show "invocations (retryOperation_default operation s) \<le> 4" by (rule bound)
    show "\<exists>k\<le>3. sleeps (retryOperation_default operation s) = take k [1000, 2000, 4000]"
      by (rule bound)
    show "retryOperation_default operation s = retryOperation operation 3 1000 s" by (rule dflt)
    show "\<forall>n v. n \<le> 3
            \<and> (\<forall>i<n. transient_failure (nth_result operation s i))
            \<and> nth_result operation s n = Inr v
          \<longrightarrow> retryOperation_default operation s =
                \<lparr>outcome = Inr v, op_state = state_before operation s (Suc n),
                 invocations = n + 1, sleeps = take n [1000, 2000, 4000]\<rparr>"
      using dsucc by blast
    show "(\<forall>i\<le>3. transient_failure (nth_result operation s i))
          \<longrightarrow> (\<exists>e. nth_result operation s 3 = Inl e
                \<and> retryOperation_default operation s =
                    \<lparr>outcome = Inl (Some e), op_state = state_before operation s 4,
                     invocations = 4, sleeps = [1000, 2000, 4000]\<rparr>)"
      using dexh by blast
  qed
qed

lemma flaky_results:
  "nth_result flaky_op 0 0 = Inl (PlainError ''ECONNRESET'')"
  "nth_result flaky_op 0 1 = Inl (PlainError ''ECONNRESET'')"
  "nth_result flaky_op 0 2 = Inr 2"
  by (simp_all add: nth_result_def flaky_op_def numeral_2_eq_2)

lemma unavailable_results:
  "nth_result unavailable_op 0 i = Inl (SynapseApiError ''unavailable'' 503)"
  by (simp add: nth_result_def unavailable_op_def)

lemma state_before_Suc_counter:
  "state_before flaky_op n k = n + k" "state_before unavailable_op n k = n + k"
  by (induction k arbitrary: n) (simp_all add: flaky_op_def unavailable_op_def)

theorem retryOperation_transient_backoff_witness:
  "retryOperation_default flaky_op 0 =
     \<lparr>outcome = Inr 2, op_state = 3, invocations = 3, sleeps = [1000, 2000]\<rparr>
   \<and> retryOperation_default unavailable_op 0 =
     \<lparr>outcome = Inl (Some (SynapseApiError ''unavailable'' 503)), op_state = 4,
      invocations = 4, sleeps = [1000, 2000, 4000]\<rparr>
   \<and> retryOperation flaky_op 5 10 0 =
     \<lparr>outcome = Inr 2, op_state = 3, invocations = 3, sleeps = [10, 20]\<rparr>"
proof -
  have z: "(0::int) \<le> 5" by simp
  have tf: "(2::nat) \<le> 3 \<and> (\<forall>i<2. transient_failure (nth_result flaky_op 0 i))
              \<and> nth_result flaky_op 0 2 = Inr 2"
    by (auto simp: less_Suc_eq numeral_2_eq_2 flaky_results [unfolded numeral_2_eq_2 One_nat_def]
        transient_failure_def is_client_error_def)
  have tf': "int 2 \<le> 5 \<and> (\<forall>i<2. transient_failure (nth_result flaky_op 0 i))
              \<and> nth_result flaky_op 0 2 = Inr 2"
    using tf by simp
  have tu: "\<forall>i\<le>3. transient_failure (nth_result unavailable_op 0 i)"
    by (simp add: unavailable_results transient_failure_def is_client_error_def)
  have b: "backoff 10 0 2 = [10, 20]"
    by (simp add: backoff_def numeral_2_eq_2)
  have f4: "state_before unavailable_op 0 4 = 4" "state_before flaky_op 0 (Suc 2) = 3"
    "state_before flaky_op 0 3 = 3"
    by (simp_all add: state_before_Suc_counter del: state_before.simps)
  note thm_flaky = retryOperation_transient_backoff [OF z, of flaky_op 10 0]
  note thm_down = retryOperation_transient_backoff [OF z, of unavailable_op 10 0]
  from thm_flaky [THEN conjunct2, THEN conjunct2, THEN conjunct2, THEN conjunct2,
      THEN conjunct2, THEN conjunct2, THEN conjunct1, rule_format, of 2 2, OF tf]
  have 1: "retryOperation_default flaky_op 0 =
     \<lparr>outcome = Inr 2, op_state = 3, invocations = 3, sleeps = [1000, 2000]\<rparr>"
    by (simp add: f4 del: state_before.simps)
  from thm_down [THEN conjunct2, THEN conjunct2, THEN conjunct2, THEN conjunct2,
      THEN conjunct2, THEN conjunct2, THEN conjunct2, THEN mp, OF tu]
  have 2: "retryOperation_default unavailable_op 0 =
     \<lparr>outcome = Inl (Some (SynapseApiError ''unavailable'' 503)), op_state = 4,
      invocations = 4, sleeps = [1000, 2000, 4000]\<rparr>"
    by (auto simp add: f4 unavailable_results simp del: state_before.simps)
  from thm_flaky [THEN conjunct2, THEN conjunct1, rule_format, of 2 2, OF tf']
  have 3: "retryOperation flaky_op 5 10 0 =
     \<lparr>outcome = Inr 2, op_state = 3, invocations = 3, sleeps = [10, 20]\<rparr>"
    by (simp add: b f4 del: state_before.simps)
  from 1 2 3 show ?thesis by blast
qed

section \<open>Token cache: proofs\<close>

lemma fresh_iff:
  "0 \<le> now \<Longrightarrow>
   (case cachedToken svc of None \<Rightarrow> False | Some t \<Rightarrow> isTokenValid t now) = cache_is_fresh svc now"
  by (auto simp: cache_is_fresh_def isTokenValid_def tokenExpirationBuffer_def
      split: option.splits)

lemma catch_calls [simp]:
  "getToken_calls (snd (getAccessToken_catch e svc)) = getToken_calls svc"
  "cachedToken (snd (getAccessToken_catch e svc)) = None"
  "credential (snd (getAccessToken_catch e svc)) = credential svc"
  by (simp_all add: getAccessToken_catch_def Let_def split: option.splits)

lemma getAccessToken_hit:
  "0 \<le> now \<Longrightarrow> cache_is_fresh svc now \<Longrightarrow>
   getAccessToken getToken now svc = (Inr (token (the (cachedToken svc))), svc)"
  by (simp add: getAccessToken_def fresh_iff)

lemma getAccessToken_miss_calls:
  "0 \<le> now \<Longrightarrow> \<not> cache_is_fresh svc now \<Longrightarrow>
   getToken_calls (snd (getAccessToken getToken now svc)) = getToken_calls svc + 1
   \<and> credential (snd (getAccessToken getToken now svc)) = snd (getToken (credential svc))"
  by (simp add: getAccessToken_def fresh_iff Let_def split: prod.splits sum.splits option.splits)

lemma getAccessToken_miss_success:
  "0 \<le> now \<Longrightarrow> \<not> cache_is_fresh svc now \<Longrightarrow> getToken (credential svc) = (Inr (Some tr), c') \<Longrightarrow>
   getAccessToken getToken now svc =
     (Inr (token tr), svc\<lparr>credential := c', getToken_calls := getToken_calls svc + 1,
                           cachedToken := Some tr\<rparr>)"
  by (simp add: getAccessToken_def fresh_iff Let_def)


lemma getAccessToken_failure:
  assumes "0 \<le> now" and "\<not> cache_is_fresh svc now"
    and "\<forall>tr. fst (getToken (credential svc)) \<noteq> Inr (Some tr)"
  shows "\<exists>cause. getAccessToken getToken now svc =
           getAccessToken_catch cause
             (svc\<lparr>credential := snd (getToken (credential svc)),
                   getToken_calls := getToken_calls svc + 1\<rparr>)
         \<and> (case fst (getToken (credential svc)) of
               Inl e \<Rightarrow> cause = e
             | Inr r \<Rightarrow> cause = AuthenticationError ''Failed to acquire access token'')"
proof (cases "getToken (credential svc)")
  case (Pair r c')
  show ?thesis
  proof (cases r)
    case (Inl e)
    with Pair assms(1,2) show ?thesis
      by (intro exI [of _ e]) (simp add: getAccessToken_def fresh_iff)
  next
    case (Inr v)
    with Pair assms(3) have "v = None" by (cases v) auto
    with Inr Pair assms(1,2) show ?thesis
      by (intro exI [of _ "AuthenticationError ''Failed to acquire access token''"])
         (simp add: getAccessToken_def fresh_iff)
  qed
qed

text \<open>
  C3. With the clock at \<open>now \<ge> 0\<close>: a call makes no acquisition if and only if a cached
  token exists whose expiry lies more than the five-minute buffer after \<open>now\<close>, and then
  returns the cached token and leaves the service as it was; otherwise it makes exactly
  one acquisition. A cached token without an expiry timestamp is never served. Two calls,
  the second while the token the first acquired is still more than the buffer from its
  expiry, make one acquisition and return the same token; a call after the cache was
  dropped (\<^verbatim>\<open>refreshToken\<close>, \<^verbatim>\<open>clearCache\<close>) acquires again.
\<close>

theorem getAccessToken_served_from_cache_iff:
  assumes "0 \<le> now"
  shows "(getToken_calls (snd (getAccessToken getToken now svc)) = getToken_calls svc
            \<longleftrightarrow> cache_is_fresh svc now)
     \<and> (\<forall>t. cache_is_fresh svc now \<and> cachedToken svc = Some t
            \<longrightarrow> getAccessToken getToken now svc = (Inr (token t), svc))
     \<and> (\<not> cache_is_fresh svc now
            \<longrightarrow> getToken_calls (snd (getAccessToken getToken now svc)) = getToken_calls svc + 1)
     \<and> (\<forall>t. cachedToken svc = Some t \<and> expiresOnTimestamp t = None
            \<longrightarrow> getToken_calls (snd (getAccessToken getToken now svc)) = getToken_calls svc + 1)
     \<and> (\<forall>tr e c' now2.
            \<not> cache_is_fresh svc now \<and> getToken (credential svc) = (Inr (Some tr), c')
            \<and> expiresOnTimestamp tr = Some e \<and> now \<le> now2 \<and> e - now2 > 5 * 60 * 1000
          \<longrightarrow> fst (getAccessToken getToken now svc) = Inr (token tr)
              \<and> fst (getAccessToken getToken now2 (snd (getAccessToken getToken now svc)))
                  = Inr (token tr)
              \<and> getToken_calls
                  (snd (getAccessToken getToken now2 (snd (getAccessToken getToken now svc))))
                  = getToken_calls svc + 1)
     \<and> getToken_calls (snd (refreshToken getToken now svc)) = getToken_calls svc + 1
     \<and> getToken_calls (snd (getAccessToken getToken now (clearCache svc)))
         = getToken_calls svc + 1"
proof -
  have miss: "getToken_calls (snd (getAccessToken getToken now svc)) = getToken_calls svc + 1"
    if "\<not> cache_is_fresh svc now" for svc :: "'a AzureAuthService"
    using getAccessToken_miss_calls [OF assms that] by simp
  have hit: "getAccessToken getToken now svc = (Inr (token t), svc)"
    if "cache_is_fresh svc now" "cachedToken svc = Some t" for t
    using getAccessToken_hit [OF assms that(1)] that(2) by simp
  have iff: "getToken_calls (snd (getAccessToken getToken now svc)) = getToken_calls svc
            \<longleftrightarrow> cache_is_fresh svc now"
  proof (cases "cache_is_fresh svc now")
    case True
    then show ?thesis using getAccessToken_hit [OF assms True] by simp
  next
    case False
    then show ?thesis using miss [OF False] by simp
  qed
  have noexp: "getToken_calls (snd (getAccessToken getToken now svc)) = getToken_calls svc + 1"
    if "cachedToken svc = Some t" "expiresOnTimestamp t = None" for t
    using that by (intro miss) (simp add: cache_is_fresh_def)
  have twice: "fst (getAccessToken getToken now svc) = Inr (token tr)
              \<and> fst (getAccessToken getToken now2 (snd (getAccessToken getToken now svc)))
                  = Inr (token tr)
              \<and> getToken_calls
                  (snd (getAccessToken getToken now2 (snd (getAccessToken getToken now svc))))
                  = getToken_calls svc + 1"
    if h: "\<not> cache_is_fresh svc now" "getToken (credential svc) = (Inr (Some tr), c')"
       "expiresOnTimestamp tr = Some e" "now \<le> now2" "e - now2 > 5 * 60 * 1000"
    for tr e c' now2
  proof -
    let ?svc1 = "svc\<lparr>credential := c', getToken_calls := getToken_calls svc + 1,
                     cachedToken := Some tr\<rparr>"
    have first: "getAccessToken getToken now svc = (Inr (token tr), ?svc1)"
      using getAccessToken_miss_success [where getToken = getToken and svc = svc, OF assms h(1,2)] .
    have "0 \<le> now2" using assms h(4) by simp
    moreover have "cache_is_fresh ?svc1 now2"
      using h(3,5) by (simp add: cache_is_fresh_def)
    ultimately have "getAccessToken getToken now2 ?svc1 = (Inr (token tr), ?svc1)"
      using getAccessToken_hit [of now2 ?svc1 getToken] by simp
    with first show ?thesis by simp
  qed
  have refresh: "getToken_calls (snd (refreshToken getToken now svc)) = getToken_calls svc + 1"
    unfolding refreshToken_def
    using miss [of "svc\<lparr>cachedToken := None\<rparr>"] by (simp add: cache_is_fresh_def)
  have cleared: "getToken_calls (snd (getAccessToken getToken now (clearCache svc)))
         = getToken_calls svc + 1"
    unfolding clearCache_def
    using miss [of "svc\<lparr>cachedToken := None\<rparr>"] by (simp add: cache_is_fresh_def)
  from iff hit miss noexp twice refresh cleared show ?thesis by blast
qed

theorem getAccessToken_served_from_cache_iff_witness:
  "fst (getAccessToken issuing_credential 1000 fresh_service) = Inr ''tok''
   \<and> fst (getAccessToken issuing_credential 2000
            (snd (getAccessToken issuing_credential 1000 fresh_service))) = Inr ''tok''
   \<and> getToken_calls (snd (getAccessToken issuing_credential 2000
            (snd (getAccessToken issuing_credential 1000 fresh_service)))) = 1
   \<and> getToken_calls (snd (getAccessToken issuing_credential 1000000 stale_service)) = 1"
proof -
  have z: "(0::int) \<le> 1000" "(0::int) \<le> 1000000" by simp_all
  have pre: "\<not> cache_is_fresh fresh_service 1000
       \<and> issuing_credential (credential fresh_service)
           = (Inr (Some \<lparr>token = ''tok'', expiresOnTimestamp = Some 4000000\<rparr>), 1)
       \<and> expiresOnTimestamp \<lparr>token = ''tok'', expiresOnTimestamp = Some 4000000\<rparr> = Some 4000000
       \<and> (1000::int) \<le> 2000 \<and> (4000000::int) - 2000 > 5 * 60 * 1000"
    by (simp add: cache_is_fresh_def fresh_service_def issuing_credential_def)
  have stale: "\<not> cache_is_fresh stale_service 1000000"
    by (simp add: cache_is_fresh_def stale_service_def)
  note th1 = getAccessToken_served_from_cache_iff [OF z(1), of issuing_credential fresh_service]
  note th2 = getAccessToken_served_from_cache_iff [OF z(2), of issuing_credential stale_service]
  from th1 [THEN conjunct2, THEN conjunct2, THEN conjunct2, THEN conjunct2, THEN conjunct1,
      rule_format, OF pre]
  have a: "fst (getAccessToken issuing_credential 1000 fresh_service) = Inr ''tok''
   \<and> fst (getAccessToken issuing_credential 2000
            (snd (getAccessToken issuing_credential 1000 fresh_service))) = Inr ''tok''
   \<and> getToken_calls (snd (getAccessToken issuing_credential 2000
            (snd (getAccessToken issuing_credential 1000 fresh_service)))) = 1"
    by (simp add: fresh_service_def)
  from th2 [THEN conjunct2, THEN conjunct2, THEN conjunct1, THEN mp, OF stale]
  have b: "getToken_calls (snd (getAccessToken issuing_credential 1000000 stale_service)) = 1"
    by (simp add: stale_service_def)
  from a b show ?thesis by blast
qed

text \<open>
  C8. When a call has to acquire (no cached token that is still valid) and the credential
  does not produce a token, because it rejects or resolves to \<^verbatim>\<open>null\<close>, the cached token is
  \<^verbatim>\<open>null\<close> afterwards and the call rejects with an \<open>AuthenticationError\<close>, whose message is
  the fixed prefix followed by the message of the cause (the text "Unknown error" for a
  thrown value that is not an \<^verbatim>\<open>Error\<close>).
\<close>

theorem getAccessToken_failure_clears_cache:
  assumes "0 \<le> now" and "\<not> cache_is_fresh svc now"
    and "\<forall>tr. fst (getToken (credential svc)) \<noteq> Inr (Some tr)"
  shows "cachedToken (snd (getAccessToken getToken now svc)) = None
     \<and> (\<exists>m. fst (getAccessToken getToken now svc) = Inl (AuthenticationError m))
     \<and> (\<forall>e m. fst (getToken (credential svc)) = Inl e \<and> error_message e = Some m
          \<longrightarrow> fst (getAccessToken getToken now svc) =
                Inl (AuthenticationError (''Failed to acquire access token: '' @ m)))
     \<and> (\<forall>e. fst (getToken (credential svc)) = Inl e \<and> error_message e = None
          \<longrightarrow> fst (getAccessToken getToken now svc) =
                Inl (AuthenticationError ''Failed to acquire access token: Unknown error''))
     \<and> (fst (getToken (credential svc)) = Inr None
          \<longrightarrow> fst (getAccessToken getToken now svc) =
                Inl (AuthenticationError
                  ''Failed to acquire access token: Failed to acquire access token''))"
proof -
  from getAccessToken_failure [where getToken = getToken and svc = svc, OF assms] obtain cause where
    c: "getAccessToken getToken now svc =
           getAccessToken_catch cause
             (svc\<lparr>credential := snd (getToken (credential svc)),
                   getToken_calls := getToken_calls svc + 1\<rparr>)"
    and k: "case fst (getToken (credential svc)) of
               Inl e \<Rightarrow> cause = e
             | Inr r \<Rightarrow> cause = AuthenticationError ''Failed to acquire access token''"
    by blast
  have 1: "cachedToken (snd (getAccessToken getToken now svc)) = None"
    unfolding c by simp
  have 2: "\<exists>m. fst (getAccessToken getToken now svc) = Inl (AuthenticationError m)"
    unfolding c by (simp add: getAccessToken_catch_def Let_def split: option.splits)
  have 3: "fst (getAccessToken getToken now svc) =
                Inl (AuthenticationError (''Failed to acquire access token: '' @ m))"
    if "fst (getToken (credential svc)) = Inl e" "error_message e = Some m" for e m
    using k that unfolding c by (simp add: getAccessToken_catch_def Let_def)
  have 4: "fst (getAccessToken getToken now svc) =
                Inl (AuthenticationError ''Failed to acquire access token: Unknown error'')"
    if "fst (getToken (credential svc)) = Inl e" "error_message e = None" for e
    using k that unfolding c by (simp add: getAccessToken_catch_def Let_def)
  have 5: "fst (getAccessToken getToken now svc) =
                Inl (AuthenticationError
                  ''Failed to acquire access token: Failed to acquire access token'')"
    if "fst (getToken (credential svc)) = Inr None"
    using k that unfolding c by (simp add: getAccessToken_catch_def Let_def)
  from 1 2 3 4 5 show ?thesis by blast
qed

theorem getAccessToken_failure_clears_cache_witness:
  "cachedToken stale_service \<noteq> None
   \<and> cachedToken (snd (getAccessToken failing_credential 1000000 stale_service)) = None
   \<and> fst (getAccessToken failing_credential 1000000 stale_service) =
       Inl (AuthenticationError ''Failed to acquire access token: AADSTS700016'')"
proof -
  have z: "(0::int) \<le> 1000000" by simp
  have stale: "\<not> cache_is_fresh stale_service 1000000"
    by (simp add: cache_is_fresh_def stale_service_def)
  have fails: "\<forall>tr. fst (failing_credential (credential stale_service)) \<noteq> Inr (Some tr)"
    by (simp add: failing_credential_def)
  have cause: "fst (failing_credential (credential stale_service)) = Inl (PlainError ''AADSTS700016'')
       \<and> error_message (PlainError ''AADSTS700016'') = Some ''AADSTS700016''"
    by (simp add: failing_credential_def)
  note th = getAccessToken_failure_clears_cache
      [where getToken = failing_credential and svc = stale_service, OF z stale fails]
  from th [THEN conjunct1]
    th [THEN conjunct2, THEN conjunct2, THEN conjunct1, rule_format, OF cause]
  show ?thesis by (simp add: stale_service_def)
qed

section \<open>Connection pool: proofs\<close>

lemma set_logged_in_fields [simp]:
  "pool (set_logged_in c b rt) = pool rt"
  "suspended (set_logged_in c b rt) = suspended rt"
  "requests (set_logged_in c b rt) = requests rt"
  "length (objects (set_logged_in c b rt)) = length (objects rt)"
  by (simp_all add: set_logged_in_def)

lemma set_logged_in_nth [simp]:
  "conn_key (objects (set_logged_in c b rt) ! i) = conn_key (objects rt ! i)"
  "creation (objects (set_logged_in c b rt) ! i) = creation (objects rt ! i)"
  "conn_string (objects (set_logged_in c b rt) ! i) = conn_string (objects rt ! i)"
  by (cases "i = c"; simp add: set_logged_in_def)+

lemma delete_connection_fields [simp]:
  "connections (pool (delete_connection k rt)) = (connections (pool rt))(k := None)"
  "connectionPromises (pool (delete_connection k rt)) = connectionPromises (pool rt)"
  "cache (pool (delete_connection k rt)) = cache (pool rt)"
  "suspended (delete_connection k rt) = suspended rt"
  "objects (delete_connection k rt) = objects rt"
  "requests (delete_connection k rt) = requests rt"
  by (simp_all add: delete_connection_def)

lemma delete_promise_fields [simp]:
  "connections (pool (delete_promise k rt)) = connections (pool rt)"
  "connectionPromises (pool (delete_promise k rt)) = (connectionPromises (pool rt))(k := None)"
  "cache (pool (delete_promise k rt)) = cache (pool rt)"
  "suspended (delete_promise k rt) = suspended rt"
  "objects (delete_promise k rt) = objects rt"
  "requests (delete_promise k rt) = requests rt"
  by (simp_all add: delete_promise_def)

lemma closeAll_start_fields [simp]:
  "pool (closeAll_start rt) = pool rt"
  "suspended (closeAll_start rt) = suspended rt"
  "requests (closeAll_start rt) = requests rt"
  "length (objects (closeAll_start rt)) = length (objects rt)"
  by (simp_all add: closeAll_start_def)

lemma closeAll_start_nth [simp]:
  "i < length (objects rt) \<Longrightarrow>
     conn_key (objects (closeAll_start rt) ! i) = conn_key (objects rt ! i)"
  "i < length (objects rt) \<Longrightarrow>
     creation (objects (closeAll_start rt) ! i) = creation (objects rt ! i)"
  by (simp_all add: closeAll_start_def nth_enumerate_eq)

text \<open>The invariant only reads the two maps, the suspended list, and key and promise of each object.\<close>

lemma pool_inv_cong:
  assumes "pool_inv rt"
    and "connections (pool rt') = connections (pool rt)"
    and "connectionPromises (pool rt') = connectionPromises (pool rt)"
    and "suspended rt' = suspended rt"
    and "length (objects rt') = length (objects rt)"
    and "\<And>i. i < length (objects rt) \<Longrightarrow> conn_key (objects rt' ! i) = conn_key (objects rt ! i)"
    and "\<And>i. i < length (objects rt) \<Longrightarrow> creation (objects rt' ! i) = creation (objects rt ! i)"
  shows "pool_inv rt'"
  using assms unfolding pool_inv_def by auto

lemma pool_inv_delete_connection:
  assumes "pool_inv rt"
    and "connections (pool rt') = (connections (pool rt))(k := None)"
    and "connectionPromises (pool rt') = connectionPromises (pool rt)"
    and "suspended rt' = suspended rt"
    and "length (objects rt') = length (objects rt)"
    and "\<And>i. i < length (objects rt) \<Longrightarrow> conn_key (objects rt' ! i) = conn_key (objects rt ! i)"
    and "\<And>i. i < length (objects rt) \<Longrightarrow> creation (objects rt' ! i) = creation (objects rt ! i)"
  shows "pool_inv rt'"
  using assms unfolding pool_inv_def by (auto split: if_splits)


lemma getConnection_sync_cases:
  "getConnection_sync connString ws db pt rt =
     (if ready_session rt (getConnectionKey ws db pt)
      then (Returned (the (connections (pool rt) (getConnectionKey ws db pt))), rt)
      else case connectionPromises (pool rt) (getConnectionKey ws db pt) of
             Some p \<Rightarrow> (Adopted p, rt)
           | None \<Rightarrow> (Awaiting (length (objects rt)),
                       register_creation connString (getConnectionKey ws db pt) rt))"
  by (simp add: getConnection_sync_def ready_session_def createConnection_def
      register_creation_def Let_def split: option.splits)

lemma pool_invI:
  assumes "distinct (map fst (suspended rt))"
    and "\<And>k p. connectionPromises (pool rt) k = Some p \<longleftrightarrow> (k, p) \<in> set (suspended rt)"
    and "\<And>k p. (k, p) \<in> set (suspended rt)
           \<Longrightarrow> p < length (objects rt) \<and> conn_key (objects rt ! p) = k"
    and "\<And>k c. connections (pool rt) k = Some c
           \<Longrightarrow> c < length (objects rt) \<and> conn_key (objects rt ! c) = k
               \<and> creation (objects rt ! c) = Fulfilled"
    and "\<And>p. p < length (objects rt) \<Longrightarrow> creation (objects rt ! p) = Pending
           \<Longrightarrow> (conn_key (objects rt ! p), p) \<in> set (suspended rt)"
    and "\<And>k c p. connections (pool rt) k = Some c \<Longrightarrow> connectionPromises (pool rt) k = Some p
           \<Longrightarrow> c < p"
  shows "pool_inv rt"
  unfolding pool_inv_def using assms by blast

lemma pool_inv_distinct: "pool_inv rt \<Longrightarrow> distinct (map fst (suspended rt))"
  unfolding pool_inv_def by blast

lemma pool_inv_promise:
  "pool_inv rt \<Longrightarrow> connectionPromises (pool rt) k = Some p \<longleftrightarrow> (k, p) \<in> set (suspended rt)"
  unfolding pool_inv_def by blast

lemma pool_inv_suspended:
  "pool_inv rt \<Longrightarrow> (k, p) \<in> set (suspended rt)
     \<Longrightarrow> p < length (objects rt) \<and> conn_key (objects rt ! p) = k"
  unfolding pool_inv_def by blast

lemma pool_inv_connection:
  "pool_inv rt \<Longrightarrow> connections (pool rt) k = Some c
     \<Longrightarrow> c < length (objects rt) \<and> conn_key (objects rt ! c) = k
         \<and> creation (objects rt ! c) = Fulfilled"
  unfolding pool_inv_def by blast

lemma pool_inv_pending:
  "pool_inv rt \<Longrightarrow> p < length (objects rt) \<Longrightarrow> creation (objects rt ! p) = Pending
     \<Longrightarrow> (conn_key (objects rt ! p), p) \<in> set (suspended rt)"
  unfolding pool_inv_def by blast

lemma pool_inv_older:
  "pool_inv rt \<Longrightarrow> connections (pool rt) k = Some c \<Longrightarrow> connectionPromises (pool rt) k = Some p
     \<Longrightarrow> c < p"
  unfolding pool_inv_def by blast

lemma register_creation_fields [simp]:
  "connections (pool (register_creation cs key rt)) = connections (pool rt)"
  "connectionPromises (pool (register_creation cs key rt))
     = (connectionPromises (pool rt))(key \<mapsto> length (objects rt))"
  "cache (pool (register_creation cs key rt)) = cache (pool rt)"
  "suspended (register_creation cs key rt) = suspended rt @ [(key, length (objects rt))]"
  "length (objects (register_creation cs key rt)) = Suc (length (objects rt))"
  "requests (register_creation cs key rt) = requests rt"
  by (simp_all add: register_creation_def)

lemma register_creation_nth:
  "i < length (objects rt) \<Longrightarrow> objects (register_creation cs key rt) ! i = objects rt ! i"
  "objects (register_creation cs key rt) ! length (objects rt)
     = \<lparr>conn_key = key, conn_string = cs, creation = Pending, logged_in = False\<rparr>"
  by (simp_all add: register_creation_def nth_append)

lemma pool_inv_register_creation:
  assumes inv: "pool_inv rt" and none: "connectionPromises (pool rt) key = None"
  shows "pool_inv (register_creation cs key rt)"
proof (rule pool_invI)
  let ?rt = "register_creation cs key rt"
  let ?n = "length (objects rt)"
  have fresh: "(key, p) \<notin> set (suspended rt)" for p
    using pool_inv_promise [OF inv, of key p] none by simp
  show "distinct (map fst (suspended ?rt))"
    using pool_inv_distinct [OF inv] fresh by force
  show "connectionPromises (pool ?rt) k = Some p \<longleftrightarrow> (k, p) \<in> set (suspended ?rt)" for k p
    using pool_inv_promise [OF inv, of k p] fresh [of p] by auto
  show "p < length (objects ?rt) \<and> conn_key (objects ?rt ! p) = k"
    if "(k, p) \<in> set (suspended ?rt)" for k p
  proof (cases "(k, p) \<in> set (suspended rt)")
    case True
    from pool_inv_suspended [OF inv True] show ?thesis
      by (simp add: register_creation_nth)
  next
    case False
    with that have "k = key" "p = ?n" by simp_all
    then show ?thesis by (simp add: register_creation_nth)
  qed
  show "c < length (objects ?rt) \<and> conn_key (objects ?rt ! c) = k
          \<and> creation (objects ?rt ! c) = Fulfilled"
    if "connections (pool ?rt) k = Some c" for k c
    using pool_inv_connection [OF inv, of k c] that by (simp add: register_creation_nth)
  show "(conn_key (objects ?rt ! p), p) \<in> set (suspended ?rt)"
    if "p < length (objects ?rt)" "creation (objects ?rt ! p) = Pending" for p
  proof (cases "p = ?n")
    case True
    then show ?thesis by (simp add: register_creation_nth)
  next
    case False
    with that(1) have lt: "p < ?n" by simp
    with that(2) pool_inv_pending [OF inv lt] show ?thesis
      by (simp add: register_creation_nth)
  qed
  show "c < p"
    if "connections (pool ?rt) k = Some c" "connectionPromises (pool ?rt) k = Some p" for k c p
  proof (cases "k = key")
    case True
    with that have "p = ?n" "connections (pool rt) key = Some c" by simp_all
    with pool_inv_connection [OF inv, of key c] show ?thesis by simp
  next
    case False
    with that pool_inv_older [OF inv, of k c p] show ?thesis by simp
  qed
qed

lemma on_connect_fields [simp]:
  "pool (on_connect c err rt) = pool rt"
  "suspended (on_connect c err rt) = suspended rt"
  "requests (on_connect c err rt) = requests rt"
  "length (objects (on_connect c err rt)) = length (objects rt)"
  by (simp_all add: on_connect_def)

lemma on_connect_key [simp]:
  "conn_key (objects (on_connect c err rt) ! i) = conn_key (objects rt ! i)"
  by (cases "i = c"; cases "c < length (objects rt)";
      simp add: on_connect_def list_update_beyond not_less)

lemma on_connect_creation:
  "i \<noteq> c \<Longrightarrow> creation (objects (on_connect c err rt) ! i) = creation (objects rt ! i)"
  "c < length (objects rt) \<Longrightarrow> creation (objects (on_connect c err rt) ! c) \<noteq> Pending"
  by (simp_all add: on_connect_def split: option.splits)

lemma pool_inv_on_connect:
  assumes inv: "pool_inv rt" and c: "c < length (objects rt)"
    and pend: "creation (objects rt ! c) = Pending"
  shows "pool_inv (on_connect c err rt)"
proof (rule pool_invI)
  let ?rt = "on_connect c err rt"
  show "distinct (map fst (suspended ?rt))"
    using pool_inv_distinct [OF inv] by simp
  show "connectionPromises (pool ?rt) k = Some p \<longleftrightarrow> (k, p) \<in> set (suspended ?rt)" for k p
    using pool_inv_promise [OF inv, of k p] by simp
  show "p < length (objects ?rt) \<and> conn_key (objects ?rt ! p) = k"
    if "(k, p) \<in> set (suspended ?rt)" for k p
    using pool_inv_suspended [OF inv, of k p] that by simp
  show "c' < length (objects ?rt) \<and> conn_key (objects ?rt ! c') = k
          \<and> creation (objects ?rt ! c') = Fulfilled"
    if "connections (pool ?rt) k = Some c'" for k c'
  proof -
    from that have old: "c' < length (objects rt) \<and> conn_key (objects rt ! c') = k
          \<and> creation (objects rt ! c') = Fulfilled"
      using pool_inv_connection [OF inv, of k c'] by simp
    with pend have "c' \<noteq> c" by auto
    with old show ?thesis by (simp add: on_connect_creation)
  qed
  show "(conn_key (objects ?rt ! p), p) \<in> set (suspended ?rt)"
    if "p < length (objects ?rt)" "creation (objects ?rt ! p) = Pending" for p
  proof -
    from that(2) on_connect_creation(2) [OF c, of err] have "p \<noteq> c" by auto
    with that show ?thesis
      using pool_inv_pending [OF inv, of p] by (simp add: on_connect_creation)
  qed
  show "c' < p"
    if "connections (pool ?rt) k = Some c'" "connectionPromises (pool ?rt) k = Some p" for k c' p
    using pool_inv_older [OF inv, of k c' p] that by simp
qed


lemma distinct_keys_remove1:
  "distinct (map fst xs) \<Longrightarrow> distinct (map fst (remove1 x xs))"
  by (induction xs) (auto dest: notin_set_remove1 [rotated] simp: image_iff)

lemma distinct_keys_unique:
  "distinct (map fst xs) \<Longrightarrow> (k, p) \<in> set xs \<Longrightarrow> (k, q) \<in> set xs \<Longrightarrow> p = q"
  by (induction xs) (auto simp: image_iff)

lemma distinct_keys_set_remove1:
  "distinct (map fst xs) \<Longrightarrow> set (remove1 x xs) = set xs - {x}"
  by (simp add: distinct_map set_remove1_eq)

lemma settled_value_Some:
  "settled_value rt p = Some r \<longleftrightarrow>
     p < length (objects rt)
     \<and> (creation (objects rt ! p) = Fulfilled \<and> r = Inr p
        \<or> (\<exists>e. creation (objects rt ! p) = Rejected e \<and> r = Inl e))"
  by (auto simp: settled_value_def split: settlement.splits)

lemma resume_fields:
  assumes "settled_value rt p = Some r"
  shows "fst (getConnection_resume key p rt) = Some r"
    and "suspended (snd (getConnection_resume key p rt)) = remove1 (key, p) (suspended rt)"
    and "connectionPromises (pool (snd (getConnection_resume key p rt)))
           = (connectionPromises (pool rt))(key := None)"
    and "connections (pool (snd (getConnection_resume key p rt)))
           = (case r of Inr c \<Rightarrow> (connections (pool rt))(key \<mapsto> c)
                       | Inl e \<Rightarrow> connections (pool rt))"
    and "cache (pool (snd (getConnection_resume key p rt))) = cache (pool rt)"
    and "objects (snd (getConnection_resume key p rt)) = objects rt"
    and "requests (snd (getConnection_resume key p rt)) = requests rt"
  using assms by (cases r; simp add: getConnection_resume_def Let_def delete_promise_def)+

lemma pool_inv_resume:
  assumes inv: "pool_inv rt" and susp: "(key, p) \<in> set (suspended rt)"
    and settled: "settled_value rt p = Some r"
  shows "pool_inv (snd (getConnection_resume key p rt))"
proof (rule pool_invI)
  let ?rt = "snd (getConnection_resume key p rt)"
  note f = resume_fields [OF settled, of key]
  note d = pool_inv_distinct [OF inv]
  have sset: "set (suspended ?rt) = set (suspended rt) - {(key, p)}"
    unfolding f by (rule distinct_keys_set_remove1 [OF d])
  have only: "q = p" if "(key, q) \<in> set (suspended rt)" for q
    using distinct_keys_unique [OF d that susp] .
  from settled have notpend: "creation (objects rt ! p) \<noteq> Pending"
    by (auto simp: settled_value_Some)
  show "distinct (map fst (suspended ?rt))"
    unfolding f by (rule distinct_keys_remove1 [OF d])
  show "connectionPromises (pool ?rt) k = Some q \<longleftrightarrow> (k, q) \<in> set (suspended ?rt)" for k q
    unfolding sset f(3) using pool_inv_promise [OF inv, of k q] only by auto
  show "q < length (objects ?rt) \<and> conn_key (objects ?rt ! q) = k"
    if "(k, q) \<in> set (suspended ?rt)" for k q
    using that pool_inv_suspended [OF inv, of k q] unfolding sset f(6) by simp
  show "c < length (objects ?rt) \<and> conn_key (objects ?rt ! c) = k
          \<and> creation (objects ?rt ! c) = Fulfilled"
    if h: "connections (pool ?rt) k = Some c" for k c
  proof (cases "connections (pool rt) k = Some c")
    case True
    with pool_inv_connection [OF inv True] show ?thesis unfolding f(6) by simp
  next
    case False
    with h have "r = Inr c \<and> k = key" unfolding f(4) by (cases r) (auto split: if_splits)
    with settled pool_inv_suspended [OF inv susp] show ?thesis
      unfolding f(6) by (auto simp: settled_value_Some)
  qed
  show "(conn_key (objects ?rt ! q), q) \<in> set (suspended ?rt)"
    if "q < length (objects ?rt)" "creation (objects ?rt ! q) = Pending" for q
  proof -
    from that notpend have "q \<noteq> p" unfolding f(6) by auto
    with that pool_inv_pending [OF inv, of q] show ?thesis
      unfolding sset f(6) by simp
  qed
  show "c < q"
    if "connections (pool ?rt) k = Some c" "connectionPromises (pool ?rt) k = Some q" for k c q
  proof -
    from that(2) have ne: "k \<noteq> key" and old: "connectionPromises (pool rt) k = Some q"
      unfolding f(3) by (auto split: if_splits)
    from that(1) ne have "connections (pool rt) k = Some c"
      unfolding f(4) by (cases r) auto
    with old pool_inv_older [OF inv] show ?thesis by blast
  qed
qed

lemma pool_inv_initial: "pool_inv (initial ttl)"
  by (rule pool_invI) (simp_all add: initial_def)

lemma executeQuery_sync_fields [simp]:
  "connections (pool (snd (executeQuery_sync sf now c query ps rt))) = connections (pool rt)"
  "connectionPromises (pool (snd (executeQuery_sync sf now c query ps rt)))
     = connectionPromises (pool rt)"
  "suspended (snd (executeQuery_sync sf now c query ps rt)) = suspended rt"
  "length (objects (snd (executeQuery_sync sf now c query ps rt))) = length (objects rt)"
  "conn_key (objects (snd (executeQuery_sync sf now c query ps rt)) ! i) = conn_key (objects rt ! i)"
  "creation (objects (snd (executeQuery_sync sf now c query ps rt)) ! i) = creation (objects rt ! i)"
  by (simp_all add: executeQuery_sync_def execSql_def Let_def split: prod.splits option.splits)

lemma executeQuery_complete_fields [simp]:
  "connections (pool (snd (executeQuery_complete sf now query ps resp rt))) = connections (pool rt)"
  "connectionPromises (pool (snd (executeQuery_complete sf now query ps resp rt)))
     = connectionPromises (pool rt)"
  "suspended (snd (executeQuery_complete sf now query ps resp rt)) = suspended rt"
  "objects (snd (executeQuery_complete sf now query ps resp rt)) = objects rt"
  "requests (snd (executeQuery_complete sf now query ps resp rt)) = requests rt"
  by (simp_all add: executeQuery_complete_def split: sum.splits)

lemma closeConnection_shape:
  "connections (pool (closeConnection ws db pt rt))
     = (connections (pool rt))(getConnectionKey ws db pt := None)"
  "connectionPromises (pool (closeConnection ws db pt rt)) = connectionPromises (pool rt)"
  "suspended (closeConnection ws db pt rt) = suspended rt"
  "length (objects (closeConnection ws db pt rt)) = length (objects rt)"
  "conn_key (objects (closeConnection ws db pt rt) ! i) = conn_key (objects rt ! i)"
  "creation (objects (closeConnection ws db pt rt) ! i) = creation (objects rt ! i)"
  by (auto simp: closeConnection_def Let_def split: option.splits)

lemma pool_inv_step:
  assumes inv: "pool_inv rt" and st: "step sf e rt = Some rt'"
  shows "pool_inv rt'"
proof (cases e)
  case (GetConnection cs ws db pt)
  with st have rt': "rt' = snd (getConnection_sync cs ws db pt rt)" by simp
  show ?thesis
    unfolding rt' getConnection_sync_cases
    using inv by (auto split: option.splits intro: pool_inv_register_creation)
next
  case (ConnectEvent c err)
  with st inv show ?thesis by (auto split: if_splits intro: pool_inv_on_connect)
next
  case (ResumeGetConnection key p)
  with st inv show ?thesis by (auto split: if_splits intro: pool_inv_resume)
next
  case (ErrorEvent c)
  with st have "rt' = on_error c rt" by (simp split: if_splits)
  then show ?thesis
    by (intro pool_inv_delete_connection [OF inv, of _ "conn_key (objects rt ! c)"])
       (simp_all add: on_error_def)
next
  case (EndEvent c)
  with st have "rt' = on_end c rt" by (simp split: if_splits)
  then show ?thesis
    by (intro pool_inv_delete_connection [OF inv, of _ "conn_key (objects rt ! c)"])
       (simp_all add: on_end_def)
next
  case (StateChange c b)
  with st have "rt' = set_logged_in c b rt" by (simp split: if_splits)
  then show ?thesis by (intro pool_inv_cong [OF inv]) simp_all
next
  case (CloseConnection ws db pt)
  with st have "rt' = closeConnection ws db pt rt" by simp
  then show ?thesis
    by (intro pool_inv_delete_connection [OF inv, of _ "getConnectionKey ws db pt"])
       (simp_all add: closeConnection_shape)
next
  case CloseAllStart
  with st have "rt' = closeAll_start rt" by simp
  then show ?thesis by (intro pool_inv_cong [OF inv]) simp_all
next
  case CloseAllFinish
  with st have rt': "rt' = closeAll_finish rt" by simp
  show ?thesis
  proof (rule pool_invI)
    show "distinct (map fst (suspended rt'))"
      using pool_inv_distinct [OF inv] by (simp add: rt' closeAll_finish_def)
    show "connectionPromises (pool rt') k = Some p \<longleftrightarrow> (k, p) \<in> set (suspended rt')" for k p
      using pool_inv_promise [OF inv, of k p] by (simp add: rt' closeAll_finish_def)
    show "p < length (objects rt') \<and> conn_key (objects rt' ! p) = k"
      if "(k, p) \<in> set (suspended rt')" for k p
      using pool_inv_suspended [OF inv, of k p] that by (simp add: rt' closeAll_finish_def)
    show "c < length (objects rt') \<and> conn_key (objects rt' ! c) = k
            \<and> creation (objects rt' ! c) = Fulfilled"
      if "connections (pool rt') k = Some c" for k c
      using that by (simp add: rt' closeAll_finish_def)
    show "(conn_key (objects rt' ! p), p) \<in> set (suspended rt')"
      if "p < length (objects rt')" "creation (objects rt' ! p) = Pending" for p
      using pool_inv_pending [OF inv, of p] that by (simp add: rt' closeAll_finish_def)
    show "c < p"
      if "connections (pool rt') k = Some c" "connectionPromises (pool rt') k = Some p" for k c p
      using that by (simp add: rt' closeAll_finish_def)
  qed
next
  case ClearCache
  with st have "rt' = clearCache_pool rt" by simp
  then show ?thesis by (intro pool_inv_cong [OF inv]) (simp_all add: clearCache_pool_def)
next
  case (ExecuteQuery now c query ps)
  with st have "rt' = snd (executeQuery_sync sf now c query ps rt)" by (simp split: if_splits)
  then show ?thesis by (intro pool_inv_cong [OF inv]) simp_all
next
  case (ExecuteQueryDone now query ps resp)
  with st have "rt' = snd (executeQuery_complete sf now query ps resp rt)" by simp
  then show ?thesis by (intro pool_inv_cong [OF inv]) simp_all
qed

lemma reachable_pool_inv: "reachable sf ttl rt \<Longrightarrow> pool_inv rt"
  by (induction rule: reachable.induct) (auto intro: pool_inv_initial pool_inv_step)

lemma reachable_run:
  "reachable sf ttl rt \<Longrightarrow> run sf es rt = Some rt' \<Longrightarrow> reachable sf ttl rt'"
  by (induction es arbitrary: rt) (auto split: option.splits intro: reachable_step)


subsection \<open>What a step can change\<close>

lemma closeAll_finish_fields [simp]:
  "connectionPromises (pool (closeAll_finish rt)) = connectionPromises (pool rt)"
  "connections (pool (closeAll_finish rt)) = Map.empty"
  "suspended (closeAll_finish rt) = suspended rt"
  "objects (closeAll_finish rt) = objects rt"
  "requests (closeAll_finish rt) = requests rt"
  by (simp_all add: closeAll_finish_def)

lemma clearCache_pool_fields [simp]:
  "connectionPromises (pool (clearCache_pool rt)) = connectionPromises (pool rt)"
  "connections (pool (clearCache_pool rt)) = connections (pool rt)"
  "suspended (clearCache_pool rt) = suspended rt"
  "objects (clearCache_pool rt) = objects rt"
  "requests (clearCache_pool rt) = requests rt"
  by (simp_all add: clearCache_pool_def)

lemma on_error_fields [simp]:
  "connectionPromises (pool (on_error c rt)) = connectionPromises (pool rt)"
  "suspended (on_error c rt) = suspended rt"
  "objects (on_error c rt) = objects rt"
  by (simp_all add: on_error_def)

lemma on_end_fields [simp]:
  "connectionPromises (pool (on_end c rt)) = connectionPromises (pool rt)"
  "suspended (on_end c rt) = suspended rt"
  "length (objects (on_end c rt)) = length (objects rt)"
  "conn_key (objects (on_end c rt) ! i) = conn_key (objects rt ! i)"
  "creation (objects (on_end c rt) ! i) = creation (objects rt ! i)"
  by (simp_all add: on_end_def)

text \<open>
  Only \<^verbatim>\<open>getConnection\<close> constructs a connection, and only when the key has neither a
  ready session nor a registered promise; every other step keeps the number of objects.
\<close>

lemma step_creates:
  assumes "step sf e rt = Some rt'"
  shows "length (objects rt') = length (objects rt)
     \<or> (\<exists>cs ws db pt. e = GetConnection cs ws db pt
           \<and> \<not> ready_session rt (getConnectionKey ws db pt)
           \<and> connectionPromises (pool rt) (getConnectionKey ws db pt) = None
           \<and> rt' = register_creation cs (getConnectionKey ws db pt) rt)"
proof (cases e)
  case (GetConnection cs ws db pt)
  with assms show ?thesis
    by (auto simp: getConnection_sync_cases split: option.splits if_splits)
next
  case (ResumeGetConnection key p)
  with assms obtain r where "settled_value rt p = Some r" "rt' = snd (getConnection_resume key p rt)"
    by (auto split: if_splits)
  then show ?thesis by (simp add: resume_fields)
next
  case (CloseConnection ws db pt)
  with assms show ?thesis by (auto simp: closeConnection_shape)
qed (use assms in \<open>auto split: if_splits\<close>)

lemma step_objects_mono:
  "step sf e rt = Some rt' \<Longrightarrow> length (objects rt) \<le> length (objects rt')"
  using step_creates [of sf e rt rt'] by auto

lemma step_keeps_key:
  assumes "step sf e rt = Some rt'" and "i < length (objects rt)"
  shows "conn_key (objects rt' ! i) = conn_key (objects rt ! i)"
proof (cases e)
  case (GetConnection cs ws db pt)
  with assms show ?thesis
    by (auto simp: getConnection_sync_cases register_creation_nth split: option.splits if_splits)
next
  case (ResumeGetConnection key p)
  with assms obtain r where "settled_value rt p = Some r" "rt' = snd (getConnection_resume key p rt)"
    by (auto split: if_splits)
  then show ?thesis by (simp add: resume_fields)
next
  case (CloseConnection ws db pt)
  with assms show ?thesis by (auto simp: closeConnection_shape)
qed (use assms in \<open>auto split: if_splits\<close>)

lemma step_keeps_settled:
  assumes "step sf e rt = Some rt'" and "settled_value rt p = Some r"
  shows "settled_value rt' p = Some r"
proof -
  from assms(2) have p: "p < length (objects rt)" and np: "creation (objects rt ! p) \<noteq> Pending"
    by (auto simp: settled_value_Some)
  have "p < length (objects rt') \<and> creation (objects rt' ! p) = creation (objects rt ! p)"
  proof (cases e)
    case (GetConnection cs ws db pt)
    with assms p show ?thesis
      by (auto simp: getConnection_sync_cases register_creation_nth split: option.splits if_splits)
  next
    case (ConnectEvent c err)
    with assms(1) have "c \<noteq> p" "rt' = on_connect c err rt" using np by (auto split: if_splits)
    with p show ?thesis by (simp add: on_connect_creation)
  next
    case (ResumeGetConnection key q)
    with assms obtain r' where "settled_value rt q = Some r'"
      "rt' = snd (getConnection_resume key q rt)"
      by (auto split: if_splits)
    with p show ?thesis by (simp add: resume_fields)
  next
    case (CloseConnection ws db pt)
    with assms p show ?thesis by (auto simp: closeConnection_shape)
  qed (use assms p in \<open>auto split: if_splits\<close>)
  with assms(2) show ?thesis by (auto simp: settled_value_Some)
qed

lemma run_keeps_settled:
  "run sf es rt = Some rt' \<Longrightarrow> settled_value rt p = Some r \<Longrightarrow> settled_value rt' p = Some r"
  by (induction es arbitrary: rt) (auto split: option.splits dest: step_keeps_settled)

text \<open>A suspended creation of an object that already exists was suspended before the step.\<close>

lemma step_suspended_before:
  assumes "step sf e rt = Some rt'" and "(k, p) \<in> set (suspended rt')"
    and "p < length (objects rt)"
  shows "(k, p) \<in> set (suspended rt)"
proof (cases e)
  case (GetConnection cs ws db pt)
  with assms show ?thesis
    by (auto simp: getConnection_sync_cases split: option.splits if_splits)
next
  case (ResumeGetConnection key q)
  with assms obtain r' where "settled_value rt q = Some r'"
    "rt' = snd (getConnection_resume key q rt)"
    by (auto split: if_splits)
  with assms(2) show ?thesis using set_remove1_subset [of "(key, q)" "suspended rt"]
    by (auto simp: resume_fields)
next
  case (CloseConnection ws db pt)
  with assms show ?thesis by (auto simp: closeConnection_shape)
qed (use assms in \<open>auto split: if_splits\<close>)


lemma attempts_for_keys:
  "attempts_for rt k = length (filter (\<lambda>x. x = k) (map conn_key (objects rt)))"
  by (simp add: attempts_for_def filter_map comp_def)

lemma step_same_keys:
  assumes "step sf e rt = Some rt'" and "length (objects rt') = length (objects rt)"
  shows "map conn_key (objects rt') = map conn_key (objects rt)"
  using assms by (intro nth_equalityI) (simp_all add: step_keeps_key)

lemma step_no_new_attempt:
  assumes inv: "pool_inv rt" and st: "step sf e rt = Some rt'"
    and susp: "(k, p) \<in> set (suspended rt)"
  shows "attempts_for rt' k = attempts_for rt k"
proof -
  from step_creates [OF st] consider
      (same) "length (objects rt') = length (objects rt)"
    | (new) cs ws db pt where "connectionPromises (pool rt) (getConnectionKey ws db pt) = None"
        "rt' = register_creation cs (getConnectionKey ws db pt) rt"
    by blast
  then show ?thesis
  proof cases
    case same
    then show ?thesis by (simp add: attempts_for_keys step_same_keys [OF st])
  next
    case new
    from susp pool_inv_promise [OF inv, of k p] have "connectionPromises (pool rt) k = Some p"
      by simp
    with new(1) have "getConnectionKey ws db pt \<noteq> k" by auto
    with new(2) show ?thesis by (simp add: attempts_for_def register_creation_def)
  qed
qed

lemma step_keeps_unpooled:
  assumes inv: "pool_inv rt" and st: "step sf e rt = Some rt'"
    and susp': "(k, p) \<in> set (suspended rt')" and p: "p < length (objects rt)"
    and none: "connections (pool rt) k = None"
  shows "connections (pool rt') k = None"
proof (cases e)
  case (GetConnection cs ws db pt)
  with st none show ?thesis
    by (auto simp: getConnection_sync_cases split: option.splits if_splits)
next
  case (ResumeGetConnection key q)
  with st obtain r where r: "settled_value rt q = Some r"
    and q: "(key, q) \<in> set (suspended rt)"
    and rt': "rt' = snd (getConnection_resume key q rt)"
    by (auto split: if_splits)
  have "key \<noteq> k"
  proof
    assume "key = k"
    from step_suspended_before [OF st susp' p] have "(k, p) \<in> set (suspended rt)" .
    with q \<open>key = k\<close> have "q = p"
      using distinct_keys_unique [OF pool_inv_distinct [OF inv]] by blast
    with susp' \<open>key = k\<close> show False
      unfolding rt' resume_fields [OF r]
      by (simp add: distinct_keys_set_remove1 [OF pool_inv_distinct [OF inv]])
  qed
  with none show ?thesis unfolding rt' resume_fields [OF r] by (cases r) auto
next
  case (CloseConnection ws db pt)
  with st none show ?thesis by (auto simp: closeConnection_shape)
next
  case (ErrorEvent c)
  with st none show ?thesis by (auto simp: on_error_def split: if_splits)
next
  case (EndEvent c)
  with st none show ?thesis by (auto simp: on_end_def split: if_splits)
qed (use st none in \<open>auto split: if_splits\<close>)

lemma run_objects_mono:
  "run sf es rt = Some rt' \<Longrightarrow> length (objects rt) \<le> length (objects rt')"
proof (induction es arbitrary: rt)
  case Nil
  then show ?case by simp
next
  case (Cons e es)
  then obtain rt1 where "step sf e rt = Some rt1" "run sf es rt1 = Some rt'"
    by (auto split: option.splits)
  with Cons.IH [of rt1] step_objects_mono [of sf e rt rt1] show ?case by simp
qed

lemma run_pool_inv: "pool_inv rt \<Longrightarrow> run sf es rt = Some rt' \<Longrightarrow> pool_inv rt'"
  by (induction es arbitrary: rt) (auto split: option.splits dest: pool_inv_step)

text \<open>
  While a creation stays suspended, it has been suspended all along, no further attempt
  is made for its key, and no session is published for the key.
\<close>

lemma run_while_suspended:
  assumes "pool_inv rt" and "run sf es rt = Some rt'"
    and "(k, p) \<in> set (suspended rt')" and "p < length (objects rt)"
  shows "(k, p) \<in> set (suspended rt) \<and> attempts_for rt' k = attempts_for rt k
     \<and> (connections (pool rt) k = None \<longrightarrow> connections (pool rt') k = None)"
  using assms
proof (induction es arbitrary: rt)
  case Nil
  then show ?case by simp
next
  case (Cons e es)
  from Cons.prems(2) obtain rt1 where st: "step sf e rt = Some rt1"
    and rest: "run sf es rt1 = Some rt'"
    by (auto split: option.splits)
  have inv1: "pool_inv rt1" using pool_inv_step [OF Cons.prems(1) st] .
  have p1: "p < length (objects rt1)" using step_objects_mono [OF st] Cons.prems(4) by simp
  from Cons.IH [OF inv1 rest Cons.prems(3) p1]
  have s1: "(k, p) \<in> set (suspended rt1)" and a1: "attempts_for rt' k = attempts_for rt1 k"
    and c1: "connections (pool rt1) k = None \<longrightarrow> connections (pool rt') k = None"
    by blast+
  have s0: "(k, p) \<in> set (suspended rt)"
    using step_suspended_before [OF st s1 Cons.prems(4)] .
  have a0: "attempts_for rt1 k = attempts_for rt k"
    using step_no_new_attempt [OF Cons.prems(1) st s0] .
  have c0: "connections (pool rt) k = None \<longrightarrow> connections (pool rt1) k = None"
    using step_keeps_unpooled [OF Cons.prems(1) st s1 Cons.prems(4)] by blast
  from s0 a0 a1 c0 c1 show ?case by simp
qed

lemma at_most_one_key:
  "distinct (map fst xs) \<Longrightarrow> length (filter (\<lambda>kp. fst kp = k) xs) \<le> 1"
proof (induction xs)
  case Nil
  then show ?case by simp
next
  case (Cons x xs)
  show ?case
  proof (cases "fst x = k")
    case True
    with Cons.prems have "filter (\<lambda>kp. fst kp = k) xs = []"
      by (auto simp: filter_empty_conv image_iff)
    with True show ?thesis by simp
  next
    case False
    with Cons show ?thesis by simp
  qed
qed

lemma in_flight_at_most_one: "pool_inv rt \<Longrightarrow> length (in_flight rt k) \<le> 1"
  unfolding in_flight_def using at_most_one_key [OF pool_inv_distinct] by simp

lemma in_flight_promise:
  assumes "pool_inv rt"
  shows "connectionPromises (pool rt) k = Some p \<longleftrightarrow> in_flight rt k = [p]"
proof
  assume "connectionPromises (pool rt) k = Some p"
  with pool_inv_promise [OF assms] have "(k, p) \<in> set (suspended rt)" by simp
  then have "p \<in> set (in_flight rt k)" by (force simp: in_flight_def)
  with in_flight_at_most_one [OF assms, of k] show "in_flight rt k = [p]"
    by (cases "in_flight rt k") auto
next
  assume "in_flight rt k = [p]"
  then have "p \<in> set (in_flight rt k)" by simp
  then have "(k, p) \<in> set (suspended rt)" by (auto simp: in_flight_def)
  with pool_inv_promise [OF assms] show "connectionPromises (pool rt) k = Some p" by simp
qed

lemma filter_at_most_one:
  "(\<And>i j. i < length xs \<Longrightarrow> j < length xs \<Longrightarrow> P (xs ! i) \<Longrightarrow> P (xs ! j) \<Longrightarrow> i = j)
     \<Longrightarrow> length (filter P xs) \<le> 1"
proof (induction xs)
  case Nil
  then show ?case by simp
next
  case (Cons x xs)
  have tl: "i = j" if "i < length xs" "j < length xs" "P (xs ! i)" "P (xs ! j)" for i j
    using Cons.prems [of "Suc i" "Suc j"] that by simp
  show ?case
  proof (cases "P x")
    case True
    have "\<not> P y" if "y \<in> set xs" for y
    proof
      assume "P y"
      from that obtain i where "i < length xs" "xs ! i = y" by (auto simp: in_set_conv_nth)
      with Cons.prems [of 0 "Suc i"] True \<open>P y\<close> show False by simp
    qed
    then have "filter P xs = []" by (simp add: filter_empty_conv)
    with True show ?thesis by simp
  next
    case False
    with Cons.IH [OF tl] show ?thesis by simp
  qed
qed

lemma pending_at_most_one:
  assumes "pool_inv rt"
  shows "pending_attempts rt k \<le> 1"
  unfolding pending_attempts_def
proof (rule filter_at_most_one)
  fix i j
  assume i: "i < length (objects rt)" and j: "j < length (objects rt)"
    and pi: "conn_key (objects rt ! i) = k \<and> creation (objects rt ! i) = Pending"
    and pj: "conn_key (objects rt ! j) = k \<and> creation (objects rt ! j) = Pending"
  from pool_inv_pending [OF assms i] pi have "(k, i) \<in> set (suspended rt)" by auto
  moreover from pool_inv_pending [OF assms j] pj have "(k, j) \<in> set (suspended rt)" by auto
  ultimately show "i = j"
    using distinct_keys_unique [OF pool_inv_distinct [OF assms]] by blast
qed


lemma step_publishes:
  assumes st: "step sf e rt = Some rt'"
    and new: "connections (pool rt') k = Some c" and old: "connections (pool rt) k \<noteq> Some c"
  shows "e = ResumeGetConnection k c \<and> (k, c) \<in> set (suspended rt)
     \<and> connectionPromises (pool rt') k = None"
proof (cases e)
  case (GetConnection cs ws db pt)
  with st new old show ?thesis
    by (auto simp: getConnection_sync_cases split: option.splits if_splits)
next
  case (ResumeGetConnection key q)
  with st obtain r where r: "settled_value rt q = Some r"
    and q: "(key, q) \<in> set (suspended rt)"
    and rt': "rt' = snd (getConnection_resume key q rt)"
    by (auto split: if_splits)
  from new old have "r = Inr c \<and> key = k"
    unfolding rt' resume_fields [OF r] by (cases r) (auto split: if_splits)
  moreover from this r have "q = c" by (auto simp: settled_value_Some)
  ultimately show ?thesis
    using q ResumeGetConnection unfolding rt' resume_fields [OF r] by simp
next
  case (CloseConnection ws db pt)
  with st new old show ?thesis by (auto simp: closeConnection_shape split: if_splits)
next
  case (ErrorEvent c')
  with st new old show ?thesis by (auto simp: on_error_def split: if_splits)
next
  case (EndEvent c')
  with st new old show ?thesis by (auto simp: on_end_def split: if_splits)
qed (use st new old in \<open>auto split: if_splits\<close>)

lemma busy_session_second_call_check:
  "(case run no_parameters busy_session_second_call (initial 300) of
      None \<Rightarrow> False
    | Some rt \<Rightarrow> connections (pool rt) ''ws-db1-dedicated'' = Some 0
        \<and> connectionPromises (pool rt) ''ws-db1-dedicated'' = Some 1
        \<and> \<not> is_logged_in rt 0)"
  by code_simp

lemma busy_session_second_call_run:
  "\<exists>rt. run no_parameters busy_session_second_call (initial 300) = Some rt
     \<and> connections (pool rt) ''ws-db1-dedicated'' = Some 0
     \<and> connectionPromises (pool rt) ''ws-db1-dedicated'' = Some 1
     \<and> \<not> is_logged_in rt 0"
  using busy_session_second_call_check
  by (cases "run no_parameters busy_session_second_call (initial 300)") simp_all

text \<open>
  C6, as stated, fails. In the run \<open>busy_session_second_call\<close> a session is pooled for the
  key, a statement is running on it (so it is not in the ready state), and a second
  \<^verbatim>\<open>getConnection\<close> for the key starts a creation: the reached state holds a pooled session
  and a creation in flight for the same key.
\<close>

theorem pool_session_and_creation_coexist:
  "\<not> (\<forall>(rt :: string runtime) k. reachable no_parameters 300 rt \<longrightarrow>
        length (in_flight rt k) \<le> 1
        \<and> (connections (pool rt) k = None \<or> connectionPromises (pool rt) k = None))"
proof
  assume stated: "\<forall>(rt :: string runtime) k. reachable no_parameters 300 rt \<longrightarrow>
        length (in_flight rt k) \<le> 1
        \<and> (connections (pool rt) k = None \<or> connectionPromises (pool rt) k = None)"
  from busy_session_second_call_run obtain rt :: "string runtime" where
    r: "run no_parameters busy_session_second_call (initial 300) = Some rt"
    and c: "connections (pool rt) ''ws-db1-dedicated'' = Some 0"
    and p: "connectionPromises (pool rt) ''ws-db1-dedicated'' = Some 1"
    by blast
  have "reachable no_parameters 300 rt"
    using reachable_run [OF reachable_initial r] .
  from stated [rule_format, OF this, of "''ws-db1-dedicated''"] c p show False by simp
qed

text \<open>
  C6, amended. In every reachable state and for every key: at most one creation is in
  flight and at most one connect attempt is pending, and the entry of
  \<^verbatim>\<open>connectionPromises\<close> is that creation; the pooled session, if any, is a connected object
  made for the key; a step constructs a connection only as \<^verbatim>\<open>getConnection\<close> for a key
  that has no session in the ready state and no creation in flight; a step publishes a
  session for the key only as the continuation of the creation in flight, which removes
  it; and a pooled session that coexists with a creation in flight (one that was not
  ready when the creation started) is older than it.
\<close>

theorem pool_one_session_one_creation:
  assumes "reachable sf ttl rt"
  shows "length (in_flight rt k) \<le> 1 \<and> pending_attempts rt k \<le> 1
     \<and> (\<forall>p. connectionPromises (pool rt) k = Some p \<longleftrightarrow> in_flight rt k = [p])
     \<and> (\<forall>c. connections (pool rt) k = Some c
          \<longrightarrow> c < length (objects rt) \<and> conn_key (objects rt ! c) = k
              \<and> creation (objects rt ! c) = Fulfilled)
     \<and> (\<forall>e rt'. step sf e rt = Some rt' \<and> length (objects rt') \<noteq> length (objects rt)
          \<longrightarrow> (\<exists>cs ws db pt. e = GetConnection cs ws db pt
                 \<and> \<not> ready_session rt (getConnectionKey ws db pt)
                 \<and> connectionPromises (pool rt) (getConnectionKey ws db pt) = None
                 \<and> length (objects rt') = length (objects rt) + 1))
     \<and> (\<forall>e rt' c. step sf e rt = Some rt' \<and> connections (pool rt') k = Some c
              \<and> connections (pool rt) k \<noteq> Some c
          \<longrightarrow> e = ResumeGetConnection k c \<and> in_flight rt k = [c]
              \<and> connectionPromises (pool rt') k = None)
     \<and> (\<forall>c p. connections (pool rt) k = Some c \<and> connectionPromises (pool rt) k = Some p
          \<longrightarrow> c < p)"
proof -
  have inv: "pool_inv rt" using reachable_pool_inv [OF assms] .
  have 1: "length (in_flight rt k) \<le> 1" using in_flight_at_most_one [OF inv] .
  have 2: "pending_attempts rt k \<le> 1" using pending_at_most_one [OF inv] .
  have 3: "connectionPromises (pool rt) k = Some p \<longleftrightarrow> in_flight rt k = [p]" for p
    using in_flight_promise [OF inv] .
  have 4: "c < length (objects rt) \<and> conn_key (objects rt ! c) = k
              \<and> creation (objects rt ! c) = Fulfilled"
    if "connections (pool rt) k = Some c" for c
    using pool_inv_connection [OF inv that] .
  have 5: "\<exists>cs ws db pt. e = GetConnection cs ws db pt
                 \<and> \<not> ready_session rt (getConnectionKey ws db pt)
                 \<and> connectionPromises (pool rt) (getConnectionKey ws db pt) = None
                 \<and> length (objects rt') = length (objects rt) + 1"
    if "step sf e rt = Some rt'" "length (objects rt') \<noteq> length (objects rt)" for e rt'
    using step_creates [OF that(1)] that(2) by auto
  have 6: "e = ResumeGetConnection k c \<and> in_flight rt k = [c]
              \<and> connectionPromises (pool rt') k = None"
    if "step sf e rt = Some rt'" "connections (pool rt') k = Some c"
       "connections (pool rt) k \<noteq> Some c" for e rt' c
  proof -
    from step_publishes [OF that] have e: "e = ResumeGetConnection k c"
      and s: "(k, c) \<in> set (suspended rt)" and n: "connectionPromises (pool rt') k = None"
      by blast+
    from s pool_inv_promise [OF inv, of k c] have "connectionPromises (pool rt) k = Some c"
      by simp
    then have "in_flight rt k = [c]"
      using in_flight_promise [OF inv, of k c] by simp
    with e n show ?thesis by simp
  qed
  have 7: "c < p"
    if "connections (pool rt) k = Some c" "connectionPromises (pool rt) k = Some p" for c p
    using pool_inv_older [OF inv that] .
  show ?thesis
  proof (intro conjI allI impI)
    show "length (in_flight rt k) \<le> 1" by (rule 1)
    show "pending_attempts rt k \<le> 1" by (rule 2)
    show "connectionPromises (pool rt) k = Some p \<longleftrightarrow> in_flight rt k = [p]" for p by (rule 3)
    show "c < length (objects rt)" "conn_key (objects rt ! c) = k"
      "creation (objects rt ! c) = Fulfilled" if "connections (pool rt) k = Some c" for c
      using 4 [OF that] by simp_all
    show "\<exists>cs ws db pt. e = GetConnection cs ws db pt
                 \<and> \<not> ready_session rt (getConnectionKey ws db pt)
                 \<and> connectionPromises (pool rt) (getConnectionKey ws db pt) = None
                 \<and> length (objects rt') = length (objects rt) + 1"
      if "step sf e rt = Some rt' \<and> length (objects rt') \<noteq> length (objects rt)" for e rt'
      using that by (intro 5) simp_all
    show "e = ResumeGetConnection k c" "in_flight rt k = [c]"
      "connectionPromises (pool rt') k = None"
      if "step sf e rt = Some rt' \<and> connections (pool rt') k = Some c
              \<and> connections (pool rt) k \<noteq> Some c" for e rt' c
      using 6 [of e rt' c] that by simp_all
    show "c < p"
      if "connections (pool rt) k = Some c \<and> connectionPromises (pool rt) k = Some p" for c p
      using 7 [of c p] that by simp
  qed
qed

lemma after_first_call_eq:
  "run no_parameters one_caller (initial 300) = Some after_first_call"
  by (simp add: one_caller_def after_first_call_def)

theorem pool_one_session_one_creation_witness:
  "connectionPromises (pool after_first_call) ''ws-db1-dedicated'' = Some 0
   \<and> in_flight after_first_call ''ws-db1-dedicated'' = [0]
   \<and> length (in_flight after_first_call ''ws-db1-dedicated'') \<le> 1
   \<and> pending_attempts after_first_call ''ws-db1-dedicated'' \<le> 1"
proof -
  have reach: "reachable no_parameters 300 after_first_call"
    using reachable_run [OF reachable_initial after_first_call_eq] .
  have p: "connectionPromises (pool after_first_call) ''ws-db1-dedicated'' = Some 0"
    by code_simp
  note th = pool_one_session_one_creation [OF reach, of "''ws-db1-dedicated''"]
  from th [THEN conjunct2, THEN conjunct2, THEN conjunct1, rule_format, of 0] p
  have "in_flight after_first_call ''ws-db1-dedicated'' = [0]" by simp
  with p th [THEN conjunct1] th [THEN conjunct2, THEN conjunct1] show ?thesis by simp
qed


lemma resume_result_settled:
  "getConnection_resume key p rt = (Some r, rt') \<Longrightarrow>
     settled_value rt p = Some r \<and> settled_value rt' p = Some r"
proof -
  assume a: "getConnection_resume key p rt = (Some r, rt')"
  then obtain r' where r': "settled_value rt p = Some r'"
    by (cases "settled_value rt p") (auto simp: getConnection_resume_def)
  from resume_fields(1,6) [OF r', of key] a have "r' = r" "objects rt' = objects rt" by simp_all
  have "settled_value rt' p = settled_value rt p"
    using \<open>objects rt' = objects rt\<close> unfolding settled_value_def by simp
  with r' \<open>r' = r\<close> show ?thesis by simp
qed

text \<open>
  C1. From a reachable state in which the key has no session in the ready state and no
  creation in flight, a first \<^verbatim>\<open>getConnection\<close> starts a creation and suspends on its
  promise. After any steps that leave that call unsettled, a second call for the key
  (with no ready session then either, which is certain when the key had no pooled session
  at all) returns that same promise and changes nothing: one connect attempt has been
  made for the key since the first call. What the continuation of the first call returns
  or throws is what the promise has settled with, for good, so both callers get the same
  session or the same error. In no reachable state has a key more than one creation in
  flight or more than one pending connect attempt.
\<close>

theorem getConnection_coalesces:
  assumes reach: "reachable sf ttl rt0"
    and key: "key = getConnectionKey ws db pt"
    and nready0: "\<not> ready_session rt0 key"
    and none0: "connectionPromises (pool rt0) key = None"
    and call1: "getConnection_sync cs1 ws db pt rt0 = (o1, rt1)"
    and between: "run sf es rt1 = Some rt2"
    and unsettled: "(key, length (objects rt0)) \<in> set (suspended rt2)"
    and nready2: "connections (pool rt0) key = None \<or> \<not> ready_session rt2 key"
    and call2: "getConnection_sync cs2 ws db pt rt2 = (o2, rt3)"
  shows "o1 = Awaiting (length (objects rt0)) \<and> o2 = Adopted (length (objects rt0))
     \<and> rt3 = rt2
     \<and> attempts_for rt3 key = attempts_for rt0 key + 1
     \<and> (\<forall>es' rt4 r rt5 es'' rt6.
           run sf es' rt3 = Some rt4
           \<and> getConnection_resume key (length (objects rt0)) rt4 = (Some r, rt5)
           \<and> run sf es'' rt5 = Some rt6
         \<longrightarrow> settled_value rt4 (length (objects rt0)) = Some r
             \<and> settled_value rt6 (length (objects rt0)) = Some r)
     \<and> (\<forall>rt k. reachable sf ttl rt
           \<longrightarrow> length (in_flight rt k) \<le> 1 \<and> pending_attempts rt k \<le> 1)"
proof -
  let ?n = "length (objects rt0)"
  have inv0: "pool_inv rt0" using reachable_pool_inv [OF reach] .
  from call1 nready0 none0 have o1: "o1 = Awaiting ?n"
    and rt1: "rt1 = register_creation cs1 key rt0"
    by (simp_all add: getConnection_sync_cases key)
  have inv1: "pool_inv rt1"
    unfolding rt1 using pool_inv_register_creation [OF inv0 none0] .
  have n1: "?n < length (objects rt1)" by (simp add: rt1)
  from run_while_suspended [OF inv1 between unsettled n1]
  have att: "attempts_for rt2 key = attempts_for rt1 key"
    and unpooled: "connections (pool rt1) key = None \<longrightarrow> connections (pool rt2) key = None"
    by blast+
  have inv2: "pool_inv rt2" using run_pool_inv [OF inv1 between] .
  from pool_inv_promise [OF inv2, of key ?n] unsettled
  have prom2: "connectionPromises (pool rt2) key = Some ?n" by simp
  have nr2: "\<not> ready_session rt2 key"
  proof (cases "connections (pool rt0) key = None")
    case True
    then have "connections (pool rt1) key = None" by (simp add: rt1)
    with unpooled show ?thesis by (simp add: ready_session_def)
  next
    case False
    with nready2 show ?thesis by simp
  qed
  from call2 nr2 prom2 have o2: "o2 = Adopted ?n" and rt3: "rt3 = rt2"
    by (simp_all add: getConnection_sync_cases key)
  have "attempts_for rt1 key = attempts_for rt0 key + 1"
    by (simp add: rt1 attempts_for_def register_creation_def)
  with att rt3 have count: "attempts_for rt3 key = attempts_for rt0 key + 1" by simp
  have same: "settled_value rt4 ?n = Some r \<and> settled_value rt6 ?n = Some r"
    if "run sf es' rt3 = Some rt4" "getConnection_resume key ?n rt4 = (Some r, rt5)"
       "run sf es'' rt5 = Some rt6" for es' rt4 r rt5 es'' rt6
    using resume_result_settled [OF that(2)] run_keeps_settled [OF that(3)] by blast
  have one: "length (in_flight rt k) \<le> 1 \<and> pending_attempts rt k \<le> 1"
    if "reachable sf ttl rt" for rt k
    using in_flight_at_most_one [OF reachable_pool_inv [OF that]]
      pending_at_most_one [OF reachable_pool_inv [OF that]] by blast
  show ?thesis
  proof (intro conjI allI impI)
    show "o1 = Awaiting ?n" by (rule o1)
    show "o2 = Adopted ?n" by (rule o2)
    show "rt3 = rt2" by (rule rt3)
    show "attempts_for rt3 key = attempts_for rt0 key + 1" by (rule count)
    show "settled_value rt4 ?n = Some r" "settled_value rt6 ?n = Some r"
      if "run sf es' rt3 = Some rt4
           \<and> getConnection_resume key ?n rt4 = (Some r, rt5)
           \<and> run sf es'' rt5 = Some rt6" for es' rt4 r rt5 es'' rt6
      using same [of es' rt4 r rt5 es'' rt6] that by simp_all
    show "length (in_flight rt k) \<le> 1" "pending_attempts rt k \<le> 1"
      if "reachable sf ttl rt" for rt k
      using one [OF that, of k] by simp_all
  qed
qed

lemma before_second_call_eq:
  "run no_parameters other_key_call after_first_call = Some before_second_call"
  by (simp add: other_key_call_def before_second_call_def)

lemma example_calls:
  "\<not> ready_session (initial 300 :: string runtime) ''ws-db1-dedicated''"
  "connectionPromises (pool (initial 300 :: string runtime)) ''ws-db1-dedicated'' = None"
  "connections (pool (initial 300 :: string runtime)) ''ws-db1-dedicated'' = None"
  "length (objects (initial 300 :: string runtime)) = 0"
  "getConnectionKey ''ws'' ''db1'' ''dedicated'' = ''ws-db1-dedicated''"
  "(''ws-db1-dedicated'', 0) \<in> set (suspended before_second_call)"
  "attempts_for (initial 300 :: string runtime) ''ws-db1-dedicated'' = 0"
  by code_simp+

theorem getConnection_coalesces_witness:
  "fst (getConnection_sync ''Server=d;'' ''ws'' ''db1'' ''dedicated'' (initial 300 :: string runtime))
     = Awaiting 0
   \<and> fst (getConnection_sync ''Server=d;'' ''ws'' ''db1'' ''dedicated'' before_second_call)
     = Adopted 0
   \<and> attempts_for (snd (getConnection_sync ''Server=d;'' ''ws'' ''db1'' ''dedicated''
        before_second_call)) ''ws-db1-dedicated'' = 1"
proof -
  have call1: "getConnection_sync ''Server=d;'' ''ws'' ''db1'' ''dedicated'' (initial 300)
      = (fst (getConnection_sync ''Server=d;'' ''ws'' ''db1'' ''dedicated''
              (initial 300 :: string runtime)), after_first_call)"
    by (simp add: after_first_call_def)
  have call2: "getConnection_sync ''Server=d;'' ''ws'' ''db1'' ''dedicated'' before_second_call
      = (fst (getConnection_sync ''Server=d;'' ''ws'' ''db1'' ''dedicated'' before_second_call),
         snd (getConnection_sync ''Server=d;'' ''ws'' ''db1'' ''dedicated'' before_second_call))"
    by simp
  have unsettled: "(''ws-db1-dedicated'', length (objects (initial 300 :: string runtime)))
      \<in> set (suspended before_second_call)"
    by (simp add: example_calls)
  have unpooled: "connections (pool (initial 300 :: string runtime)) ''ws-db1-dedicated'' = None
      \<or> \<not> ready_session before_second_call ''ws-db1-dedicated''"
    by (simp add: example_calls)
  note th = getConnection_coalesces [OF reachable_initial example_calls(5) [symmetric]
      example_calls(1) example_calls(2) call1 before_second_call_eq unsettled unpooled call2]
  from th [THEN conjunct1] th [THEN conjunct2, THEN conjunct1]
    th [THEN conjunct2, THEN conjunct2, THEN conjunct2, THEN conjunct1]
  show ?thesis by (simp add: example_calls)
qed

section \<open>Result cache and SQL execution tool: proofs\<close>

lemma cache_get_after_set:
  assumes "now2 - now1 < stdTTL c * 1000"
  shows "cache_get now2 k (cache_set now1 k rows c) = (Some rows, cache_set now1 k rows c)"
  using assms by (simp add: cache_get_def cache_set_def)

lemma executeQuery_sync_hit:
  assumes "cache_get now (cacheKey sf query ps) (cache (pool rt)) = (Some rows, cache (pool rt))"
  shows "executeQuery_sync sf now c query ps rt = (Cached rows, rt)"
  using assms by (simp add: executeQuery_sync_def)

text \<open>
  C4. The completion of a successful execution stores the rows under the key made of the
  statement text, a dash and the serialised parameters, and resolves with them; a call
  with the same statement and parameters less than \<open>stdTTL\<close> seconds later returns exactly
  these rows from the cache and hands nothing to the connection (the runtime, with its
  log of requests, is unchanged); the completion of a failed execution rejects and leaves
  the cache as it was.
\<close>

theorem executeQuery_second_call_cached:
  "entries (cache (pool (snd (executeQuery_complete sf now1 query ps (Inr rows) rt))))
       (query @ ''-'' @ (case ps of None \<Rightarrow> ''{}'' | Some p \<Rightarrow> sf p))
     = Some (rows, if stdTTL (cache (pool rt)) = 0 then 0
                   else now1 + stdTTL (cache (pool rt)) * 1000)
   \<and> fst (executeQuery_complete sf now1 query ps (Inr rows) rt) = Inr rows
   \<and> (now2 - now1 < stdTTL (cache (pool rt)) * 1000
        \<longrightarrow> executeQuery_sync sf now2 c query ps
              (snd (executeQuery_complete sf now1 query ps (Inr rows) rt))
            = (Cached rows, snd (executeQuery_complete sf now1 query ps (Inr rows) rt)))
   \<and> executeQuery_complete sf now1 query ps (Inl err) rt = (Inl err, rt)"
proof -
  let ?rt1 = "snd (executeQuery_complete sf now1 query ps (Inr rows) rt)"
  have c1: "cache (pool ?rt1) = cache_set now1 (cacheKey sf query ps) rows (cache (pool rt))"
    by (simp add: executeQuery_complete_def)
  have a: "entries (cache (pool ?rt1))
       (query @ ''-'' @ (case ps of None \<Rightarrow> ''{}'' | Some p \<Rightarrow> sf p))
     = Some (rows, if stdTTL (cache (pool rt)) = 0 then 0
                   else now1 + stdTTL (cache (pool rt)) * 1000)"
    unfolding c1 by (simp add: cache_set_def cacheKey_def)
  have b: "fst (executeQuery_complete sf now1 query ps (Inr rows) rt) = Inr rows"
    by (simp add: executeQuery_complete_def)
  have c: "executeQuery_sync sf now2 c query ps ?rt1 = (Cached rows, ?rt1)"
    if "now2 - now1 < stdTTL (cache (pool rt)) * 1000"
    using cache_get_after_set [OF that, of "cacheKey sf query ps" rows]
    by (intro executeQuery_sync_hit) (simp add: c1)
  have d: "executeQuery_complete sf now1 query ps (Inl err) rt = (Inl err, rt)"
    by (simp add: executeQuery_complete_def)
  from a b c d show ?thesis by blast
qed

theorem executeQuery_second_call_cached_witness:
  "executeQuery_sync no_parameters 2000 0 ''SELECT 1'' None
     (snd (executeQuery_complete no_parameters 1000 ''SELECT 1'' None (Inr [''1''])
        (initial 300)))
   = (Cached [''1''],
      snd (executeQuery_complete no_parameters 1000 ''SELECT 1'' None (Inr [''1''])
        (initial 300)))"
proof -
  have w: "(2000::int) - 1000 < stdTTL (cache (pool (initial 300 :: string runtime))) * 1000"
    by (simp add: initial_def)
  from executeQuery_second_call_cached
      [of no_parameters 1000 "''SELECT 1''" None "[''1'']" "initial 300" 2000 0,
       THEN conjunct2, THEN conjunct2, THEN conjunct1, THEN mp, OF w]
  show ?thesis .
qed

lemma serverless_request_hint:
  "getErrorHint (PlainError ''No serverless pool configured for tenant: default'')
     = Some ''Check Azure Synapse workspace settings and ensure proper permissions''"
  by code_simp

lemma serverless_request_fields:
  "params_poolType serverless_request = Serverless"
  "params_tenant serverless_request = ''default''"
  "p_tenant serverless_request = None"
  "p_workspace serverless_request = ''ws''"
  "p_database serverless_request = ''db1''"
  by (simp_all add: params_poolType_def params_tenant_def serverless_request_def
      or_else_def truthy_def)

lemma serverless_request_no_pool:
  "getConnectionString two_tenants (p_tenant serverless_request)
      (Some (params_poolType serverless_request)) = None"
  unfolding serverless_request_fields
  by (simp add: getConnectionString_def two_tenants_default dedicated_only_def acme_pools_def)

lemma executeSqlQuery_try_no_pool:
  assumes "getConnectionString tm (p_tenant params) (Some (params_poolType params)) = None"
  shows "executeSqlQuery_try params tm rt =
     (Inl (PlainError (''No '' @ poolType_text (params_poolType params)
             @ '' pool configured for tenant: '' @ params_tenant params)), rt)"
  using assms by (simp add: executeSqlQuery_try_def truthy_def Let_def)

text \<open>
  C9, as stated, fails in its error class. For the tenant \<open>default\<close> of \<open>two_tenants\<close>, which
  has no serverless pool, the value thrown is a plain \<^verbatim>\<open>Error\<close>: it is not an error that the
  code classifies as a client error (the only classifier, the test of \<^verbatim>\<open>retryOperation\<close>,
  takes it for a failure to retry), and the payload holds its message and a hint only.
\<close>

theorem executeSqlQuery_no_pool_plain_error:
  "fst (executeSqlQuery_try serverless_request two_tenants (initial 300 :: string runtime))
     = Inl (PlainError ''No serverless pool configured for tenant: default'')
   \<and> \<not> is_client_error (PlainError ''No serverless pool configured for tenant: default'')
   \<and> transient_failure
       (Inl (PlainError ''No serverless pool configured for tenant: default'') :: thrown + unit)
   \<and> carried_status (PlainError ''No serverless pool configured for tenant: default'') = None"
  by (simp add: executeSqlQuery_try_no_pool [OF serverless_request_no_pool]
      serverless_request_fields poolType_text_def is_client_error_def transient_failure_def)

text \<open>
  C9, amended. When the tenant manager has no connection string for the requested tenant
  and pool type, \<^verbatim>\<open>executeSqlQuery\<close> throws a plain \<^verbatim>\<open>Error\<close> with the message "No ... pool
  configured for tenant: ..." inside its \<^verbatim>\<open>try\<close> block, before \<^verbatim>\<open>getConnection\<close> is called,
  and its \<^verbatim>\<open>catch\<close> block returns at once the failure payload with that message, the hint
  for it and the metadata of the request; the pool is unchanged. The error is of no
  client-error class: it carries no status and the retry classifier does not take it for
  a client error.
\<close>

theorem executeSqlQuery_no_pool_fails:
  assumes "getConnectionString tm (p_tenant params) (Some (params_poolType params)) = None"
  shows "executeSqlQuery_try params tm rt =
           (Inl (PlainError (''No '' @ poolType_text (params_poolType params)
                   @ '' pool configured for tenant: '' @ params_tenant params)), rt)
     \<and> (\<exists>hint.
          getErrorHint (PlainError (''No '' @ poolType_text (params_poolType params)
                   @ '' pool configured for tenant: '' @ params_tenant params)) = Some hint
          \<and> executeSqlQuery_start params tm rt =
              (Returns (FailurePayload
                 (Some (''No '' @ poolType_text (params_poolType params)
                        @ '' pool configured for tenant: '' @ params_tenant params))
                 hint
                 \<lparr>md_workspace = p_workspace params, md_database = p_database params,
                  md_poolType = params_poolType params, md_executionTime = None,
                  md_tenant = params_tenant params\<rparr>),
               rt))
     \<and> \<not> is_client_error (PlainError (''No '' @ poolType_text (params_poolType params)
                   @ '' pool configured for tenant: '' @ params_tenant params))
     \<and> carried_status (PlainError (''No '' @ poolType_text (params_poolType params)
                   @ '' pool configured for tenant: '' @ params_tenant params)) = None"
proof -
  define msg where "msg = ''No '' @ poolType_text (params_poolType params)
                   @ '' pool configured for tenant: '' @ params_tenant params"
  have t: "executeSqlQuery_try params tm rt = (Inl (PlainError msg), rt)"
    unfolding msg_def by (rule executeSqlQuery_try_no_pool [OF assms])
  obtain hint where h: "getErrorHint (PlainError msg) = Some hint"
    by (simp add: getErrorHint_def)
  have "executeSqlQuery_start params tm rt =
      (Returns (FailurePayload (Some msg) hint
                 \<lparr>md_workspace = p_workspace params, md_database = p_database params,
                  md_poolType = params_poolType params, md_executionTime = None,
                  md_tenant = params_tenant params\<rparr>), rt)"
    unfolding executeSqlQuery_start_def t by (simp add: executeSqlQuery_catch_def h)
  with h have s: "\<exists>hint. getErrorHint (PlainError msg) = Some hint
          \<and> executeSqlQuery_start params tm rt =
              (Returns (FailurePayload (Some msg) hint
                 \<lparr>md_workspace = p_workspace params, md_database = p_database params,
                  md_poolType = params_poolType params, md_executionTime = None,
                  md_tenant = params_tenant params\<rparr>), rt)"
    by blast
  have c: "\<not> is_client_error (PlainError msg)" "carried_status (PlainError msg) = None"
    by (simp_all add: is_client_error_def)
  from t s c show ?thesis unfolding msg_def by (intro conjI)
qed

theorem executeSqlQuery_no_pool_fails_witness:
  "executeSqlQuery_start serverless_request two_tenants (initial 300 :: string runtime) =
     (Returns (FailurePayload
             (Some ''No serverless pool configured for tenant: default'')
             ''Check Azure Synapse workspace settings and ensure proper permissions''
             \<lparr>md_workspace = ''ws'', md_database = ''db1'', md_poolType = Serverless,
              md_executionTime = None, md_tenant = ''default''\<rparr>),
      initial 300)"
proof -
  from executeSqlQuery_no_pool_fails
    [OF serverless_request_no_pool, of "initial 300 :: string runtime",
     THEN conjunct2, THEN conjunct1]
  show ?thesis
    unfolding serverless_request_fields
    by (auto simp add: poolType_text_def serverless_request_hint)
qed

end
